theory Spec2Isabelle
  imports Complex_Main "HOL-Library.Sublist" "HOL-Library.Word"
begin

unbundle bit_operations_syntax

chapter \<open>The model\<close>

section \<open>Rate limiting: the token bucket (telegram/types.ts)\<close>

text \<open>
  JavaScript numbers are modelled as exact reals (rounding of doubles, NaN and the
  infinities are outside the model, except where a division by zero is written out);
  \<open>Date.now()\<close> is an integer number of milliseconds handed to each call as \<open>now\<close>.
\<close>

record RateLimitConfig =
  bucketCapacity :: real
  refillRate :: real
  maxQueueSize :: real
  baseBackoffDelay :: real
  maxBackoffDelay :: real
  monitoringWindow :: real

record TokenBucket =
  tokens :: real
  lastRefillTime :: int
  configTB :: RateLimitConfig

text \<open>The constructor: a full bucket, stamped with the current time.\<close>

definition newTokenBucket :: "RateLimitConfig \<Rightarrow> int \<Rightarrow> TokenBucket" where
  "newTokenBucket cfg now =
     \<lparr>tokens = bucketCapacity cfg, lastRefillTime = now, configTB = cfg\<rparr>"

definition refill :: "int \<Rightarrow> TokenBucket \<Rightarrow> TokenBucket" where
  "refill now tb =
     (let timePassed = real_of_int (now - lastRefillTime tb) / 1000 in
      if timePassed > 0
      then (let tokensToAdd = timePassed * refillRate (configTB tb) in
            tb\<lparr>tokens := min (bucketCapacity (configTB tb)) (tokens tb + tokensToAdd),
               lastRefillTime := now\<rparr>)
      else tb)"

definition consume :: "real \<Rightarrow> int \<Rightarrow> TokenBucket \<Rightarrow> bool \<times> TokenBucket" where
  "consume count now tb =
     (let tb' = refill now tb in
      if tokens tb' \<ge> count
      then (True, tb'\<lparr>tokens := tokens tb' - count\<rparr>)
      else (False, tb'))"

definition getAvailableTokens :: "int \<Rightarrow> TokenBucket \<Rightarrow> real \<times> TokenBucket" where
  "getAvailableTokens now tb = (let tb' = refill now tb in (tokens tb', tb'))"

text \<open>
  The waiting time is \<open>Math.ceil(tokensNeeded / refillRate) * 1000\<close>; with a refill rate
  of zero the quotient of the positive \<open>tokensNeeded\<close> is JavaScript's \<open>Infinity\<close>.
\<close>

datatype waitTime = Millis int | Infinite

definition getNextTokenTime :: "real \<Rightarrow> int \<Rightarrow> TokenBucket \<Rightarrow> waitTime \<times> TokenBucket" where
  "getNextTokenTime requiredTokens now tb =
     (let tb' = refill now tb in
      if tokens tb' \<ge> requiredTokens then (Millis 0, tb')
      else (let tokensNeeded = requiredTokens - tokens tb' in
            if refillRate (configTB tb') = 0 then (Infinite, tb')
            else (Millis (\<lceil>tokensNeeded / refillRate (configTB tb')\<rceil> * 1000), tb')))"

definition reset :: "int \<Rightarrow> TokenBucket \<Rightarrow> TokenBucket" where
  "reset now tb = tb\<lparr>tokens := bucketCapacity (configTB tb), lastRefillTime := now\<rparr>"

text \<open>
  A use of the bucket: one of its three public calls, made when the clock reads the given
  time. The clock readings of a sequence are arbitrary (the elapsed time between two calls
  is whatever the wall clock says, also zero or negative).
\<close>

datatype bucketCall = Consume real | GetAvailableTokens | GetNextTokenTime real

fun applyCall :: "int \<times> bucketCall \<Rightarrow> TokenBucket \<Rightarrow> TokenBucket" where
  "applyCall (now, Consume n) tb = snd (consume n now tb)"
| "applyCall (now, GetAvailableTokens) tb = snd (getAvailableTokens now tb)"
| "applyCall (now, GetNextTokenTime n) tb = snd (getNextTokenTime n now tb)"

definition runCalls :: "(int \<times> bucketCall) list \<Rightarrow> TokenBucket \<Rightarrow> TokenBucket" where
  "runCalls calls tb = fold applyCall calls tb"

fun nonNegativeCall :: "int \<times> bucketCall \<Rightarrow> bool" where
  "nonNegativeCall (now, Consume n) = (0 \<le> n)"
| "nonNegativeCall (now, GetAvailableTokens) = True"
| "nonNegativeCall (now, GetNextTokenTime n) = True"

definition withinCapacity :: "TokenBucket \<Rightarrow> bool" where
  "withinCapacity tb \<longleftrightarrow> 0 \<le> tokens tb \<and> tokens tb \<le> bucketCapacity (configTB tb)"

definition telegramDefaults :: RateLimitConfig where
  "telegramDefaults =
     \<lparr>bucketCapacity = 30, refillRate = 0.5, maxQueueSize = 100,
      baseBackoffDelay = 1000, maxBackoffDelay = 30000, monitoringWindow = 60\<rparr>"

section \<open>Strings\<close>

text \<open>
  Text is a list of 8-bit characters. The source's strings are sequences of UTF-16 code
  units; the two agree on ASCII text, which is what the patterns below are made of, and the
  non-ASCII literals of the source appear here in their UTF-8 encoding. \<open>toLowerCase\<close>
  maps \<open>A\<close>..\<open>Z\<close> to \<open>a\<close>..\<open>z\<close> (code + 32, that is bit 5 set) and leaves every other
  character alone.
\<close>

definition toLowerChar :: "char \<Rightarrow> char" where
  "toLowerChar c =
     (if 65 \<le> (of_char c :: nat) \<and> (of_char c :: nat) \<le> 90
      then (case c of Char b0 b1 b2 b3 b4 b5 b6 b7 \<Rightarrow> Char b0 b1 b2 b3 b4 True b6 b7)
      else c)"

definition toLowerCase :: "string \<Rightarrow> string" where
  "toLowerCase s = map toLowerChar s"

text \<open>\<open>s.includes(p)\<close>: \<open>p\<close> occurs in \<open>s\<close> as a contiguous substring.\<close>

fun includesStr :: "string \<Rightarrow> string \<Rightarrow> bool" where
  "includesStr [] p = (p = [])"
| "includesStr (c # cs) p = (prefix p (c # cs) \<or> includesStr cs p)"

record Error =
  message :: string

section \<open>The error classifier (streaming/error-recovery)\<close>

datatype TelegramErrorType =
  RATE_LIMIT | MESSAGE_TOO_OLD | MESSAGE_DELETED | PERMISSION_DENIED | BOT_BLOCKED
  | CHAT_NOT_FOUND | NETWORK_ERROR | TIMEOUT_TYPE | SERVER_ERROR | PARSE_ERROR | UNKNOWN

datatype RecoveryStrategy = RETRY | FALLBACK | SKIP | ABORT | RECREATE_MESSAGE

record ErrorAnalysis =
  type :: TelegramErrorType
  isRetryable :: bool
  maxRetries :: nat
  strategy :: RecoveryStrategy
  backoffMultiplier :: real
  gracefulDegradation :: "string option"

definition analyzeError :: "Error \<Rightarrow> ErrorAnalysis" where
  "analyzeError error =
     (let msg = toLowerCase (message error) in
      if includesStr msg ''rate limit'' \<or> includesStr msg ''too many requests''
         \<or> includesStr msg ''429''
      then \<lparr>type = RATE_LIMIT, isRetryable = True, maxRetries = 5, strategy = RETRY,
            backoffMultiplier = 2.0, gracefulDegradation = None\<rparr>
      else if includesStr msg ''message is not modified''
         \<or> includesStr msg ''message to edit not found''
         \<or> includesStr msg ''message_id_invalid''
      then \<lparr>type = MESSAGE_TOO_OLD, isRetryable = False, maxRetries = 0,
            strategy = RECREATE_MESSAGE, backoffMultiplier = 1.0,
            gracefulDegradation = Some
       [CHR 0xE6, CHR 0xB6, CHR 0x88, CHR 0xE6, CHR 0x81, CHR 0xAF, CHR 0xE5, CHR 0xB7,
        CHR 0xB2, CHR 0xE8, CHR 0xBF, CHR 0x87, CHR 0xE6, CHR 0x9C, CHR 0x9F, CHR 0xEF,
        CHR 0xBC, CHR 0x8C, CHR 0xE5, CHR 0xB0, CHR 0x86, CHR 0xE5, CHR 0x8F, CHR 0x91,
        CHR 0xE9, CHR 0x80, CHR 0x81, CHR 0xE6, CHR 0x96, CHR 0xB0, CHR 0xE6, CHR 0xB6,
        CHR 0x88, CHR 0xE6, CHR 0x81, CHR 0xAF]\<rparr>
      else if includesStr msg ''message to delete not found''
         \<or> includesStr msg ''message was deleted''
      then \<lparr>type = MESSAGE_DELETED, isRetryable = False, maxRetries = 0,
            strategy = RECREATE_MESSAGE, backoffMultiplier = 1.0,
            gracefulDegradation = Some
       [CHR 0xE6, CHR 0xB6, CHR 0x88, CHR 0xE6, CHR 0x81, CHR 0xAF, CHR 0xE5, CHR 0xB7,
        CHR 0xB2, CHR 0xE8, CHR 0xA2, CHR 0xAB, CHR 0xE5, CHR 0x88, CHR 0xA0, CHR 0xE9,
        CHR 0x99, CHR 0xA4, CHR 0xEF, CHR 0xBC, CHR 0x8C, CHR 0xE5, CHR 0xB0, CHR 0x86,
        CHR 0xE5, CHR 0x8F, CHR 0x91, CHR 0xE9, CHR 0x80, CHR 0x81, CHR 0xE6, CHR 0x96,
        CHR 0xB0, CHR 0xE6, CHR 0xB6, CHR 0x88, CHR 0xE6, CHR 0x81, CHR 0xAF]\<rparr>
      else if includesStr msg ''forbidden'' \<or> includesStr msg ''not enough rights''
         \<or> includesStr msg ''chat member status''
      then \<lparr>type = PERMISSION_DENIED, isRetryable = False, maxRetries = 0,
            strategy = ABORT, backoffMultiplier = 1.0,
            gracefulDegradation = Some
       [CHR 0xE6, CHR 0x9D, CHR 0x83, CHR 0xE9, CHR 0x99, CHR 0x90, CHR 0xE4, CHR 0xB8,
        CHR 0x8D, CHR 0xE8, CHR 0xB6, CHR 0xB3, CHR 0xEF, CHR 0xBC, CHR 0x8C, CHR 0xE6,
        CHR 0x97, CHR 0xA0, CHR 0xE6, CHR 0xB3, CHR 0x95, CHR 0xE7, CHR 0xBC, CHR 0x96,
        CHR 0xE8, CHR 0xBE, CHR 0x91, CHR 0xE6, CHR 0xB6, CHR 0x88, CHR 0xE6, CHR 0x81,
        CHR 0xAF]\<rparr>
      else if includesStr msg ''bot was blocked'' \<or> includesStr msg ''user is deactivated''
         \<or> includesStr msg ''chat not found''
      then \<lparr>type = BOT_BLOCKED, isRetryable = False, maxRetries = 0,
            strategy = ABORT, backoffMultiplier = 1.0,
            gracefulDegradation = Some
       [CHR 0xE7, CHR 0x94, CHR 0xA8, CHR 0xE6, CHR 0x88, CHR 0xB7, CHR 0xE5, CHR 0xB7,
        CHR 0xB2, CHR 0xE9, CHR 0x98, CHR 0xBB, CHR 0xE6, CHR 0xAD, CHR 0xA2, CHR 0xE6,
        CHR 0x9C, CHR 0xBA, CHR 0xE5, CHR 0x99, CHR 0xA8, CHR 0xE4, CHR 0xBA, CHR 0xBA,
        CHR 0xE6, CHR 0x88, CHR 0x96, CHR 0xE8, CHR 0x81, CHR 0x8A, CHR 0xE5, CHR 0xA4,
        CHR 0xA9, CHR 0xE4, CHR 0xB8, CHR 0x8D, CHR 0xE5, CHR 0xAD, CHR 0x98, CHR 0xE5,
        CHR 0x9C, CHR 0xA8]\<rparr>
      else if includesStr msg ''timeout'' \<or> includesStr msg ''network''
         \<or> includesStr msg ''connection''
      then \<lparr>type = NETWORK_ERROR, isRetryable = True, maxRetries = 3, strategy = RETRY,
            backoffMultiplier = 1.5, gracefulDegradation = None\<rparr>
      else if includesStr msg ''500'' \<or> includesStr msg ''502'' \<or> includesStr msg ''503''
         \<or> includesStr msg ''504'' \<or> includesStr msg ''internal server error''
      then \<lparr>type = SERVER_ERROR, isRetryable = True, maxRetries = 3, strategy = RETRY,
            backoffMultiplier = 1.2, gracefulDegradation = None\<rparr>
      else if includesStr msg ''parse_mode'' \<or> includesStr msg ''bad request''
         \<or> includesStr msg ''can't parse''
      then \<lparr>type = PARSE_ERROR, isRetryable = True, maxRetries = 1, strategy = FALLBACK,
            backoffMultiplier = 1.0,
            gracefulDegradation = Some
       [CHR 0xE6, CHR 0xA0, CHR 0xBC, CHR 0xE5, CHR 0xBC, CHR 0x8F, CHR 0xE5, CHR 0x8C,
        CHR 0x96, CHR 0xE5, CHR 0xA4, CHR 0xB1, CHR 0xE8, CHR 0xB4, CHR 0xA5, CHR 0xEF,
        CHR 0xBC, CHR 0x8C, CHR 0xE4, CHR 0xBD, CHR 0xBF, CHR 0xE7, CHR 0x94, CHR 0xA8,
        CHR 0xE7, CHR 0xBA, CHR 0xAF, CHR 0xE6, CHR 0x96, CHR 0x87, CHR 0xE6, CHR 0x9C,
        CHR 0xAC]\<rparr>
      else \<lparr>type = UNKNOWN, isRetryable = True, maxRetries = 2, strategy = RETRY,
            backoffMultiplier = 1.5, gracefulDegradation = None\<rparr>)"

text \<open>The groups of markers the classifier looks for, in the order it tests them.\<close>

definition rateLimitMarker :: "string \<Rightarrow> bool" where
  "rateLimitMarker msg \<longleftrightarrow>
     includesStr msg ''rate limit'' \<or> includesStr msg ''too many requests''
     \<or> includesStr msg ''429''"

definition staleTargetMarker :: "string \<Rightarrow> bool" where
  "staleTargetMarker msg \<longleftrightarrow>
     includesStr msg ''message is not modified''
     \<or> includesStr msg ''message to edit not found''
     \<or> includesStr msg ''message_id_invalid''"

definition deletedTargetMarker :: "string \<Rightarrow> bool" where
  "deletedTargetMarker msg \<longleftrightarrow>
     includesStr msg ''message to delete not found'' \<or> includesStr msg ''message was deleted''"

definition otherMarker :: "string \<Rightarrow> bool" where
  "otherMarker msg \<longleftrightarrow>
     includesStr msg ''forbidden'' \<or> includesStr msg ''not enough rights''
     \<or> includesStr msg ''chat member status''
     \<or> includesStr msg ''bot was blocked'' \<or> includesStr msg ''user is deactivated''
     \<or> includesStr msg ''chat not found''
     \<or> includesStr msg ''timeout'' \<or> includesStr msg ''network''
     \<or> includesStr msg ''connection''
     \<or> includesStr msg ''500'' \<or> includesStr msg ''502'' \<or> includesStr msg ''503''
     \<or> includesStr msg ''504'' \<or> includesStr msg ''internal server error''
     \<or> includesStr msg ''parse_mode'' \<or> includesStr msg ''bad request''
     \<or> includesStr msg ''can't parse''"

section \<open>The backoff strategy (telegram/types.ts)\<close>

record BackoffStrategy =
  consecutiveFailures :: nat
  configBS :: RateLimitConfig

definition newBackoffStrategy :: "RateLimitConfig \<Rightarrow> BackoffStrategy" where
  "newBackoffStrategy cfg = \<lparr>consecutiveFailures = 0, configBS = cfg\<rparr>"

definition getErrorMultiplier :: "Error \<Rightarrow> real" where
  "getErrorMultiplier error =
     (let msg = toLowerCase (message error) in
      if includesStr msg ''rate limit'' \<or> includesStr msg ''too many requests'' then 2.0
      else if includesStr msg ''timeout'' then 1.5
      else if includesStr msg ''server error'' \<or> includesStr msg ''internal error'' then 1.2
      else 1.0)"

text \<open>
  \<open>calculateDelay\<close> draws \<open>Math.random()\<close> once; the drawn number is the argument
  \<open>rnd\<close>, which the caller takes from \<open>[0, 1)\<close>.
\<close>

definition errorMultiplier :: "Error option \<Rightarrow> real" where
  "errorMultiplier error = (case error of None \<Rightarrow> 1 | Some e \<Rightarrow> getErrorMultiplier e)"

definition jitterOf :: "real \<Rightarrow> real" where
  "jitterOf rnd = rnd * 0.3 + 0.85"

definition calculateDelay :: "Error option \<Rightarrow> real \<Rightarrow> BackoffStrategy \<Rightarrow> int" where
  "calculateDelay error rnd bs =
     (let multiplier = errorMultiplier error;
          exponentialDelay =
            min (baseBackoffDelay (configBS bs) * 2 ^ consecutiveFailures bs)
                (maxBackoffDelay (configBS bs));
          jitter = jitterOf rnd
      in \<lfloor>exponentialDelay * multiplier * jitter\<rfloor>)"

definition recordSuccess :: "BackoffStrategy \<Rightarrow> BackoffStrategy" where
  "recordSuccess bs = bs\<lparr>consecutiveFailures := 0\<rparr>"

definition recordFailure :: "BackoffStrategy \<Rightarrow> BackoffStrategy" where
  "recordFailure bs = bs\<lparr>consecutiveFailures := consecutiveFailures bs + 1\<rparr>"

section \<open>The admission queue: AdvancedRateLimiter (telegram/types.ts)\<close>

datatype RequestPriority = LOW | NORMAL | HIGH | URGENT

text \<open>The numeric values of the enumeration, which the queue compares.\<close>

fun priorityValue :: "RequestPriority \<Rightarrow> nat" where
  "priorityValue LOW = 0"
| "priorityValue NORMAL = 1"
| "priorityValue HIGH = 2"
| "priorityValue URGENT = 3"

text \<open>
  A queued request. Its three callbacks are not data: the operation \<open>data\<close> is run by the
  environment, which later reports how it settled, and the calls of \<open>resolve\<close> and
  \<open>reject\<close> are recorded by the limiter model as notices carrying the request's id.
\<close>

record QueuedRequest =
  ident :: string
  priority :: RequestPriority
  timestamp :: int
  retryCount :: nat

datatype outcome = Success | Failure Error

datatype notice = Resolved string | Rejected string string

text \<open>
  \<open>processQueue\<close> is an asynchronous loop. Between two events it is either not running or
  suspended at one of its \<open>await\<close>s: the token wait and the operation itself inside
  \<open>executeRequest\<close>, the backoff sleep before a retry is put back, and the return from
  \<open>executeRequest\<close> to the loop test.
\<close>

datatype suspension =
  NotRunning
  | AwaitTokens QueuedRequest
  | AwaitRequest QueuedRequest
  | AwaitBackoff QueuedRequest
  | AwaitLoop

text \<open>
  The limiter. The first five fields are the source's (the monitor, which only counts, is
  left out); \<open>suspended\<close> is the point where the loop waits, and \<open>started\<close>, \<open>notices\<close>
  and \<open>sleeps\<close> record, in order, the ids of the operations invoked, the callbacks called
  and the delays awaited.
\<close>

record AdvancedRateLimiter =
  tokenBucket :: TokenBucket
  backoffStrategy :: BackoffStrategy
  requestQueue :: "QueuedRequest list"
  processing :: bool
  configRL :: RateLimitConfig
  suspended :: suspension
  started :: "string list"
  notices :: "notice list"
  sleeps :: "waitTime list"

definition newAdvancedRateLimiter :: "RateLimitConfig \<Rightarrow> int \<Rightarrow> AdvancedRateLimiter" where
  "newAdvancedRateLimiter cfg now =
     \<lparr>tokenBucket = newTokenBucket cfg now, backoffStrategy = newBackoffStrategy cfg,
      requestQueue = [], processing = False, configRL = cfg,
      suspended = NotRunning, started = [], notices = [], sleeps = []\<rparr>"

text \<open>
  The search loop of \<open>enqueueRequest\<close>: the index of the first queued request whose
  priority is lower than the new one's, the length of the queue if there is none.
\<close>

fun findInsertIndex :: "QueuedRequest \<Rightarrow> QueuedRequest list \<Rightarrow> nat" where
  "findInsertIndex request [] = 0"
| "findInsertIndex request (x # xs) =
     (if priorityValue (priority x) < priorityValue (priority request) then 0
      else Suc (findInsertIndex request xs))"

definition enqueueRequest :: "QueuedRequest \<Rightarrow> AdvancedRateLimiter \<Rightarrow> AdvancedRateLimiter" where
  "enqueueRequest request rl =
     (if real (length (requestQueue rl)) \<ge> maxQueueSize (configRL rl)
      then rl\<lparr>notices := notices rl @ [Rejected (ident request) ''Request queue is full'']\<rparr>
      else (let insertIndex = findInsertIndex request (requestQueue rl) in
            rl\<lparr>requestQueue := take insertIndex (requestQueue rl) @ request
                                 # drop insertIndex (requestQueue rl)\<rparr>))"

definition shouldRetry :: "Error \<Rightarrow> bool" where
  "shouldRetry error =
     (let msg = toLowerCase (message error) in
      includesStr msg ''rate limit'' \<or> includesStr msg ''timeout''
      \<or> includesStr msg ''network'' \<or> includesStr msg ''server error''
      \<or> includesStr msg ''502'' \<or> includesStr msg ''503'' \<or> includesStr msg ''504'')"

fun positiveWait :: "waitTime \<Rightarrow> bool" where
  "positiveWait (Millis w) = (w > 0)"
| "positiveWait Infinite = True"

text \<open>\<open>executeRequest\<close> from the token wait on: the operation is invoked.\<close>

definition invokeRequest :: "QueuedRequest \<Rightarrow> AdvancedRateLimiter \<Rightarrow> AdvancedRateLimiter" where
  "invokeRequest request rl =
     rl\<lparr>suspended := AwaitRequest request, started := started rl @ [ident request]\<rparr>"

text \<open>\<open>executeRequest\<close> up to its first \<open>await\<close>.\<close>

definition executeRequest ::
  "QueuedRequest \<Rightarrow> int \<Rightarrow> AdvancedRateLimiter \<Rightarrow> AdvancedRateLimiter" where
  "executeRequest request now rl =
     (case consume 1 now (tokenBucket rl) of
        (True, tb1) \<Rightarrow> invokeRequest request (rl\<lparr>tokenBucket := tb1\<rparr>)
      | (False, tb1) \<Rightarrow>
          (case getNextTokenTime 1 now tb1 of (waitTime, tb2) \<Rightarrow>
             if positiveWait waitTime
             then rl\<lparr>tokenBucket := snd (getAvailableTokens now tb2),
                     suspended := AwaitTokens request,
                     sleeps := sleeps rl @ [waitTime]\<rparr>
             else invokeRequest request (rl\<lparr>tokenBucket := tb2\<rparr>)))"

text \<open>
  \<open>executeRequest\<close> after the operation has settled: a success is reported to the caller;
  a failure is either slept on and retried, or reported.
\<close>

fun settleRequest ::
  "QueuedRequest \<Rightarrow> outcome \<Rightarrow> real \<Rightarrow> AdvancedRateLimiter \<Rightarrow> AdvancedRateLimiter" where
  "settleRequest request Success rnd rl =
     rl\<lparr>backoffStrategy := recordSuccess (backoffStrategy rl),
        notices := notices rl @ [Resolved (ident request)],
        suspended := AwaitLoop\<rparr>"
| "settleRequest request (Failure error) rnd rl =
     (let bs = recordFailure (backoffStrategy rl) in
      if retryCount request < 3 \<and> shouldRetry error
      then rl\<lparr>backoffStrategy := bs,
              suspended := AwaitBackoff request,
              sleeps := sleeps rl @ [Millis (calculateDelay (Some error) rnd bs)]\<rparr>
      else rl\<lparr>backoffStrategy := bs,
              notices := notices rl @ [Rejected (ident request) (message error)],
              suspended := AwaitLoop\<rparr>)"

text \<open>\<open>executeRequest\<close> after the backoff sleep: the request is put back, one retry older.\<close>

definition requeueRequest :: "QueuedRequest \<Rightarrow> AdvancedRateLimiter \<Rightarrow> AdvancedRateLimiter" where
  "requeueRequest request rl =
     (enqueueRequest (request\<lparr>retryCount := retryCount request + 1\<rparr>) rl)
       \<lparr>suspended := AwaitLoop\<rparr>"

text \<open>The loop test of \<open>processQueue\<close> and the start of the next round.\<close>

definition continueLoop :: "int \<Rightarrow> AdvancedRateLimiter \<Rightarrow> AdvancedRateLimiter" where
  "continueLoop now rl =
     (case requestQueue rl of
        [] \<Rightarrow> rl\<lparr>processing := False, suspended := NotRunning\<rparr>
      | request # rest \<Rightarrow> executeRequest request now (rl\<lparr>requestQueue := rest\<rparr>))"

definition processQueue :: "int \<Rightarrow> AdvancedRateLimiter \<Rightarrow> AdvancedRateLimiter" where
  "processQueue now rl =
     (if processing rl \<or> requestQueue rl = [] then rl
      else continueLoop now (rl\<lparr>processing := True\<rparr>))"

text \<open>
  \<open>execute\<close>: the caller's operation is wrapped in a request (its generated id is the
  argument \<open>i\<close>), enqueued, and the loop is started if it is not running.
\<close>

definition execute ::
  "string \<Rightarrow> RequestPriority \<Rightarrow> nat \<Rightarrow> int \<Rightarrow> AdvancedRateLimiter \<Rightarrow> AdvancedRateLimiter" where
  "execute i p k now rl =
     processQueue now
       (enqueueRequest \<lparr>ident = i, priority = p, timestamp = now, retryCount = k\<rparr> rl)"

text \<open>
  What can happen to a limiter: a caller submits an operation; the operation in flight
  settles (with the random number a retry delay would use); or a pending delay or the
  pending return to the loop comes due. Each event carries the clock reading.
\<close>

datatype event = Execute string RequestPriority nat | Settle outcome real | Resume

fun step :: "int \<times> event \<Rightarrow> AdvancedRateLimiter \<Rightarrow> AdvancedRateLimiter" where
  "step (now, Execute i p k) rl = execute i p k now rl"
| "step (now, Settle out rnd) rl =
     (case suspended rl of
        AwaitRequest request \<Rightarrow> settleRequest request out rnd rl
      | _ \<Rightarrow> rl)"
| "step (now, Resume) rl =
     (case suspended rl of
        AwaitTokens request \<Rightarrow> invokeRequest request rl
      | AwaitBackoff request \<Rightarrow> requeueRequest request rl
      | AwaitLoop \<Rightarrow> continueLoop now rl
      | _ \<Rightarrow> rl)"

definition runEvents :: "(int \<times> event) list \<Rightarrow> AdvancedRateLimiter \<Rightarrow> AdvancedRateLimiter" where
  "runEvents evs rl = fold step evs rl"

definition priorityDescending :: "QueuedRequest list \<Rightarrow> bool" where
  "priorityDescending q \<longleftrightarrow>
     sorted_wrt (\<lambda>a b. priorityValue (priority a) \<ge> priorityValue (priority b)) q"

text \<open>
  What holds of a limiter in every state it reaches: the pending queue is ordered, the
  configuration is the one it was built with, the flag \<open>processing\<close> says whether the
  loop is running, and a limiter whose loop is not running has nothing pending.
\<close>

definition limiterInvariant :: "RateLimitConfig \<Rightarrow> AdvancedRateLimiter \<Rightarrow> bool" where
  "limiterInvariant cfg rl \<longleftrightarrow>
     priorityDescending (requestQueue rl)
     \<and> configRL rl = cfg
     \<and> (processing rl \<longleftrightarrow> suspended rl \<noteq> NotRunning)
     \<and> (\<not> processing rl \<longrightarrow> requestQueue rl = [])"

section \<open>The session store: StreamStateManager (telegram/stream-state-manager.ts)\<close>

datatype SessionStatus =
  INITIALIZING | ACTIVE | PAUSED | FINALIZING | COMPLETED | ERROR | TIMEOUT

record StreamSession =
  sessionId :: string
  chatId :: int
  userId :: int
  startTime :: int
  lastActivity :: int
  status :: SessionStatus
  messageId :: "int option"
  metadata :: "(string \<times> string) list"

record MessageVersion =
  version :: nat
  content :: string
  timestampMV :: int
  byteLength :: nat
  wordCount :: nat
  sentToTelegram :: bool
  telegramMessageId :: "int option"
  checksum :: string

record StreamContext =
  sessionIdC :: string
  messageVersions :: "MessageVersion list"
  currentVersion :: nat
  totalChunks :: nat
  processedChunks :: nat
  errorCount :: nat
  retryCountC :: nat
  lastCheckpoint :: int
  contextData :: "(string \<times> string) list"

record StreamMetrics =
  totalSessions :: nat
  activeSessions :: nat
  averageSessionDuration :: real
  totalMessages :: nat
  totalChunksM :: nat
  errorRate :: real
  successRate :: real
  averageResponseTime :: real

record CleanupConfig =
  maxSessionAge :: int
  maxInactiveDuration :: int
  maxSessionsPerUser :: int
  enableAutoCleanup :: bool
  cleanupInterval :: int

text \<open>
  The three maps of the manager are JavaScript \<open>Map\<close>s, which keep their entries in
  insertion order: association lists, where \<open>set\<close> replaces the value of a key in place
  or appends a new entry, and \<open>delete\<close> drops the entry. The \<open>Set\<close> of session ids of a
  user is a list without repetitions, in insertion order. \<open>cleanupTimer\<close> records whether
  the periodic sweep has been scheduled; the sweeps themselves are calls of
  \<open>performCleanup\<close> made by whoever drives the manager.
\<close>

record StreamStateManager =
  sessions :: "(string \<times> StreamSession) list"
  contexts :: "(string \<times> StreamContext) list"
  userSessions :: "(int \<times> string list) list"
  cleanupConfig :: CleanupConfig
  cleanupTimer :: bool
  metrics :: StreamMetrics

definition defaultCleanupConfig :: CleanupConfig where
  "defaultCleanupConfig =
     \<lparr>maxSessionAge = 30 * 60 * 1000, maxInactiveDuration = 5 * 60 * 1000,
      maxSessionsPerUser = 5, enableAutoCleanup = True, cleanupInterval = 60 * 1000\<rparr>"

definition newStreamStateManager :: "CleanupConfig \<Rightarrow> StreamStateManager" where
  "newStreamStateManager cfg =
     \<lparr>sessions = [], contexts = [], userSessions = [], cleanupConfig = cfg,
      cleanupTimer = False,
      metrics = \<lparr>totalSessions = 0, activeSessions = 0, averageSessionDuration = 0,
                 totalMessages = 0, totalChunksM = 0, errorRate = 0, successRate = 100,
                 averageResponseTime = 0\<rparr>\<rparr>"

subsection \<open>Numbers as text\<close>

definition digitChar :: "nat \<Rightarrow> char" where
  "digitChar d = ''0123456789abcdefghijklmnopqrstuvwxyz'' ! d"

function digitsOf :: "nat \<Rightarrow> nat \<Rightarrow> string" where
  "digitsOf b n =
     (if b < 2 \<or> n < b then [digitChar n] else digitsOf b (n div b) @ [digitChar (n mod b)])"
  by pat_completeness auto
termination
  by (relation "measure (\<lambda>(b, n). n)") auto

declare digitsOf.simps [simp del]

text \<open>\<open>n.toString(radix)\<close> for an integer \<open>n\<close>.\<close>

definition toStringRadix :: "nat \<Rightarrow> int \<Rightarrow> string" where
  "toStringRadix b n = (if n < 0 then ''-'' @ digitsOf b (nat (- n)) else digitsOf b (nat n))"

subsection \<open>Helpers of the manager\<close>

text \<open>
  \<open>generateSessionId\<close>; \<open>random\<close> stands for \<open>Math.random().toString(36).substring(2)\<close>.
\<close>

definition generateSessionId :: "int \<Rightarrow> int \<Rightarrow> int \<Rightarrow> string \<Rightarrow> string" where
  "generateSessionId chat user now random =
     ''stream_'' @ toStringRadix 10 chat @ ''_'' @ toStringRadix 10 user @ ''_''
       @ toStringRadix 10 now @ ''_'' @ random"

text \<open>
  \<open>countWords\<close>: the text is trimmed, split at the runs of white space, and the non-empty
  pieces are counted. White space is the ASCII part of the class \<open>\s\<close>.
\<close>

definition isSpace :: "char \<Rightarrow> bool" where
  "isSpace c \<longleftrightarrow> c \<in> set [CHR '' '', CHR 0x09, CHR 0x0A, CHR 0x0B, CHR 0x0C, CHR 0x0D]"

definition trim :: "string \<Rightarrow> string" where
  "trim s = rev (dropWhile isSpace (rev (dropWhile isSpace s)))"

function splitSpaces :: "string \<Rightarrow> string \<Rightarrow> string list" where
  "splitSpaces piece [] = [piece]"
| "splitSpaces piece (c # cs) =
     (if isSpace c then piece # splitSpaces [] (dropWhile isSpace cs)
      else splitSpaces (piece @ [c]) cs)"
  by pat_completeness auto
termination
  by (relation "measure (\<lambda>(piece, s). length s)")
     (auto simp: length_dropWhile_le less_Suc_eq_le)

definition countWords :: "string \<Rightarrow> nat" where
  "countWords text' = length (filter (\<lambda>word. length word > 0) (splitSpaces [] (trim text')))"

text \<open>
  \<open>generateChecksum\<close>: \<open>hash = ((hash << 5) - hash) + char\<close> followed by \<open>hash & hash\<close>,
  which brings the sum back to a signed 32-bit integer, for each character code in turn;
  the result is printed in base 16 with its sign.
\<close>

definition checksumStep :: "32 word \<Rightarrow> char \<Rightarrow> 32 word" where
  "checksumStep hash c = (push_bit 5 hash - hash) + of_nat (of_char c)"

definition generateChecksum :: "string \<Rightarrow> string" where
  "generateChecksum content' = toStringRadix 16 (sint (foldl checksumStep 0 content'))"

text \<open>\<open>Map.set\<close> and \<open>Map.delete\<close> on an association list in insertion order.\<close>

fun mapSet :: "'k \<Rightarrow> 'v \<Rightarrow> ('k \<times> 'v) list \<Rightarrow> ('k \<times> 'v) list" where
  "mapSet k v [] = [(k, v)]"
| "mapSet k v (p # ps) = (if fst p = k then (k, v) # ps else p # mapSet k v ps)"

definition mapDelete :: "'k \<Rightarrow> ('k \<times> 'v) list \<Rightarrow> ('k \<times> 'v) list" where
  "mapDelete k m = filter (\<lambda>entry. fst entry \<noteq> k) m"

definition isActiveSession :: "string \<times> StreamSession \<Rightarrow> bool" where
  "isActiveSession entry \<longleftrightarrow> status (snd entry) = ACTIVE \<or> status (snd entry) = INITIALIZING"

definition updateActiveSessionsCount :: "StreamStateManager \<Rightarrow> StreamStateManager" where
  "updateActiveSessionsCount m =
     m\<lparr>metrics := (metrics m)\<lparr>activeSessions := length (filter isActiveSession (sessions m))\<rparr>\<rparr>"

definition updateSessionMetrics ::
  "StreamSession \<Rightarrow> int \<Rightarrow> StreamStateManager \<Rightarrow> StreamStateManager" where
  "updateSessionMetrics session now m =
     (let duration = real_of_int (now - startTime session);
          totalDuration = averageSessionDuration (metrics m)
                            * (real (totalSessions (metrics m)) - 1) + duration
      in m\<lparr>metrics := (metrics m)\<lparr>averageSessionDuration :=
                          totalDuration / real (totalSessions (metrics m))\<rparr>\<rparr>)"

definition updateErrorRate :: "StreamStateManager \<Rightarrow> StreamStateManager" where
  "updateErrorRate m =
     (let totalErrors = sum_list (map (\<lambda>entry. errorCount (snd entry)) (contexts m));
          totalAttempts = sum_list (map (\<lambda>entry. totalChunks (snd entry)
                                             + errorCount (snd entry)) (contexts m))
      in if totalAttempts > 0
         then m\<lparr>metrics := (metrics m)
                   \<lparr>errorRate := real totalErrors / real totalAttempts * 100,
                    successRate := 100 - real totalErrors / real totalAttempts * 100\<rparr>\<rparr>
         else m)"

subsection \<open>Operations of the manager\<close>

definition getSession :: "string \<Rightarrow> StreamStateManager \<Rightarrow> StreamSession option" where
  "getSession sid m = map_of (sessions m) sid"

definition getContext :: "string \<Rightarrow> StreamStateManager \<Rightarrow> StreamContext option" where
  "getContext sid m = map_of (contexts m) sid"

definition cleanupSession :: "string \<Rightarrow> StreamStateManager \<Rightarrow> bool \<times> StreamStateManager" where
  "cleanupSession sid m =
     (case map_of (sessions m) sid of
        None \<Rightarrow> (False, m)
      | Some session \<Rightarrow>
          (let users =
                 (case map_of (userSessions m) (userId session) of
                    None \<Rightarrow> userSessions m
                  | Some ids \<Rightarrow>
                      (if removeAll sid ids = []
                       then mapDelete (userId session) (userSessions m)
                       else mapSet (userId session) (removeAll sid ids) (userSessions m)))
           in (True, updateActiveSessionsCount
                       (m\<lparr>userSessions := users,
                          sessions := mapDelete sid (sessions m),
                          contexts := mapDelete sid (contexts m)\<rparr>))))"

text \<open>
  The search loop of \<open>enforceUserSessionLimits\<close>: the oldest session among the user's
  ids (the first of them in case of a tie), with its id; \<open>(None, '''')\<close> before any is found.
\<close>

fun findOldest ::
  "(string \<times> StreamSession) list \<Rightarrow> string list \<Rightarrow> StreamSession option \<times> string
     \<Rightarrow> StreamSession option \<times> string" where
  "findOldest all [] oldest = oldest"
| "findOldest all (sid # ids) (oldestSession, oldestSessionId) =
     findOldest all ids
       (case map_of all sid of
          None \<Rightarrow> (oldestSession, oldestSessionId)
        | Some session \<Rightarrow>
            (case oldestSession of
               None \<Rightarrow> (Some session, sid)
             | Some oldest \<Rightarrow>
                 if startTime session < startTime oldest then (Some session, sid)
                 else (oldestSession, oldestSessionId)))"

definition enforceUserSessionLimits :: "int \<Rightarrow> StreamStateManager \<Rightarrow> StreamStateManager" where
  "enforceUserSessionLimits user m =
     (case map_of (userSessions m) user of
        None \<Rightarrow> m
      | Some ids \<Rightarrow>
          if int (length ids) < maxSessionsPerUser (cleanupConfig m) then m
          else (let oldestSessionId = snd (findOldest (sessions m) ids (None, '''')) in
                if oldestSessionId \<noteq> '''' then snd (cleanupSession oldestSessionId m)
                else m))"

text \<open>
  The first statement of \<open>createSession\<close>: the periodic sweep is scheduled if it is
  enabled and not yet scheduled.
\<close>

definition ensureAutoCleanup :: "StreamStateManager \<Rightarrow> StreamStateManager" where
  "ensureAutoCleanup m =
     (if enableAutoCleanup (cleanupConfig m) \<and> \<not> cleanupTimer m
      then m\<lparr>cleanupTimer := True\<rparr> else m)"

definition createSession ::
  "int \<Rightarrow> int \<Rightarrow> (string \<times> string) list \<Rightarrow> int \<Rightarrow> string \<Rightarrow> StreamStateManager
     \<Rightarrow> StreamSession \<times> StreamStateManager" where
  "createSession chat user meta now random m =
     (let m1 = ensureAutoCleanup m;
          sid = generateSessionId chat user now random;
          m2 = enforceUserSessionLimits user m1;
          session = \<lparr>sessionId = sid, chatId = chat, userId = user, startTime = now,
                     lastActivity = now, status = INITIALIZING, messageId = None,
                     metadata = meta\<rparr>;
          context = \<lparr>sessionIdC = sid, messageVersions = [], currentVersion = 0,
                     totalChunks = 0, processedChunks = 0, errorCount = 0, retryCountC = 0,
                     lastCheckpoint = now, contextData = []\<rparr>;
          m3 = m2\<lparr>sessions := mapSet sid session (sessions m2),
                  contexts := mapSet sid context (contexts m2)\<rparr>;
          ids = (case map_of (userSessions m3) user of None \<Rightarrow> [] | Some ids \<Rightarrow> ids);
          m4 = m3\<lparr>userSessions :=
                    mapSet user (if sid \<in> set ids then ids else ids @ [sid]) (userSessions m3)\<rparr>;
          m5 = m4\<lparr>metrics := (metrics m4)\<lparr>totalSessions := totalSessions (metrics m4) + 1\<rparr>\<rparr>
      in (session, updateActiveSessionsCount m5))"

definition updateSessionStatus ::
  "string \<Rightarrow> SessionStatus \<Rightarrow> int \<Rightarrow> StreamStateManager \<Rightarrow> bool \<times> StreamStateManager" where
  "updateSessionStatus sid st now m =
     (case map_of (sessions m) sid of
        None \<Rightarrow> (False, m)
      | Some session \<Rightarrow>
          (let session' = session\<lparr>status := st, lastActivity := now\<rparr>;
               m1 = m\<lparr>sessions := mapSet sid session' (sessions m)\<rparr>
           in (True, if st = COMPLETED \<or> st = ERROR
                     then updateSessionMetrics session' now m1 else m1)))"

definition addMessageVersion ::
  "string \<Rightarrow> string \<Rightarrow> bool \<Rightarrow> int option \<Rightarrow> int \<Rightarrow> StreamStateManager
     \<Rightarrow> MessageVersion option \<times> StreamStateManager" where
  "addMessageVersion sid text' sent telegramId now m =
     (case map_of (contexts m) sid of
        None \<Rightarrow> (None, m)
      | Some context \<Rightarrow>
          (let v = \<lparr>version = currentVersion context + 1, content = text', timestampMV = now,
                    byteLength = length text', wordCount = countWords text',
                    sentToTelegram = sent, telegramMessageId = telegramId,
                    checksum = generateChecksum text'\<rparr>;
               context' = context\<lparr>messageVersions := messageVersions context @ [v],
                                  currentVersion := version v\<rparr>;
               m1 = m\<lparr>contexts := mapSet sid context' (contexts m)\<rparr>;
               m2 = (case map_of (sessions m1) sid of
                       None \<Rightarrow> m1
                     | Some session \<Rightarrow>
                         m1\<lparr>sessions := mapSet sid
                              (if telegramId \<noteq> None \<and> telegramId \<noteq> Some 0
                               then session\<lparr>lastActivity := now, messageId := telegramId\<rparr>
                               else session\<lparr>lastActivity := now\<rparr>)
                              (sessions m1)\<rparr>)
           in (Some v, m2\<lparr>metrics := (metrics m2)
                            \<lparr>totalMessages := totalMessages (metrics m2) + 1\<rparr>\<rparr>)))"

text \<open>The refresh of the activity time that several operations share.\<close>

definition touchSession :: "string \<Rightarrow> int \<Rightarrow> StreamStateManager \<Rightarrow> StreamStateManager" where
  "touchSession sid now m =
     (case map_of (sessions m) sid of
        None \<Rightarrow> m
      | Some session \<Rightarrow> m\<lparr>sessions := mapSet sid (session\<lparr>lastActivity := now\<rparr>) (sessions m)\<rparr>)"

definition recordChunk :: "string \<Rightarrow> int \<Rightarrow> StreamStateManager \<Rightarrow> bool \<times> StreamStateManager" where
  "recordChunk sid now m =
     (case map_of (contexts m) sid of
        None \<Rightarrow> (False, m)
      | Some context \<Rightarrow>
          (let context' = context\<lparr>totalChunks := totalChunks context + 1,
                                  processedChunks := processedChunks context + 1,
                                  lastCheckpoint := now\<rparr>;
               m1 = touchSession sid now (m\<lparr>contexts := mapSet sid context' (contexts m)\<rparr>)
           in (True, m1\<lparr>metrics := (metrics m1)
                           \<lparr>totalChunksM := totalChunksM (metrics m1) + 1\<rparr>\<rparr>)))"

definition recordError ::
  "string \<Rightarrow> Error \<Rightarrow> int \<Rightarrow> StreamStateManager \<Rightarrow> bool \<times> StreamStateManager" where
  "recordError sid error now m =
     (case map_of (contexts m) sid of
        None \<Rightarrow> (False, m)
      | Some context \<Rightarrow>
          (let context' = context\<lparr>errorCount := errorCount context + 1\<rparr>;
               m1 = m\<lparr>contexts := mapSet sid context' (contexts m)\<rparr>;
               m2 = (case map_of (sessions m1) sid of
                       None \<Rightarrow> m1
                     | Some session \<Rightarrow>
                         m1\<lparr>sessions := mapSet sid
                              (if errorCount context' > 3
                               then session\<lparr>lastActivity := now, status := ERROR\<rparr>
                               else session\<lparr>lastActivity := now\<rparr>)
                              (sessions m1)\<rparr>)
           in (True, updateErrorRate m2)))"

definition recordRetry :: "string \<Rightarrow> int \<Rightarrow> StreamStateManager \<Rightarrow> bool \<times> StreamStateManager" where
  "recordRetry sid now m =
     (case map_of (contexts m) sid of
        None \<Rightarrow> (False, m)
      | Some context \<Rightarrow>
          (True, touchSession sid now
                   (m\<lparr>contexts := mapSet sid (context\<lparr>retryCountC := retryCountC context + 1\<rparr>)
                                    (contexts m)\<rparr>)))"

definition setContextData ::
  "string \<Rightarrow> string \<Rightarrow> string \<Rightarrow> StreamStateManager \<Rightarrow> bool \<times> StreamStateManager" where
  "setContextData sid key val m =
     (case map_of (contexts m) sid of
        None \<Rightarrow> (False, m)
      | Some context \<Rightarrow>
          (True, m\<lparr>contexts := mapSet sid
                     (context\<lparr>contextData := mapSet key val (contextData context)\<rparr>)
                     (contexts m)\<rparr>))"

text \<open>The test of the sweep, for one session.\<close>

definition shouldCleanup :: "CleanupConfig \<Rightarrow> int \<Rightarrow> StreamSession \<Rightarrow> bool" where
  "shouldCleanup cfg now session =
     (let age = now - startTime session;
          inactiveDuration = now - lastActivity session
      in age > maxSessionAge cfg \<or> inactiveDuration > maxInactiveDuration cfg
         \<or> (status session = COMPLETED \<or> status session = ERROR))"

text \<open>
  \<open>performCleanup\<close> walks over the entries of the session map; the only entry deleted
  while it does so is the one just visited, so the walk sees the entries the map had at
  the start.
\<close>

definition sweepEntry ::
  "int \<Rightarrow> string \<times> StreamSession \<Rightarrow> nat \<times> StreamStateManager \<Rightarrow> nat \<times> StreamStateManager" where
  "sweepEntry now entry acc =
     (if shouldCleanup (cleanupConfig (snd acc)) now (snd entry)
      then (fst acc + 1, snd (cleanupSession (fst entry) (snd acc)))
      else acc)"

definition performCleanup :: "int \<Rightarrow> StreamStateManager \<Rightarrow> nat \<times> StreamStateManager" where
  "performCleanup now m = fold (sweepEntry now) (sessions m) (0, m)"

text \<open>A call of the manager's interface, made when the clock reads the given time.\<close>

datatype managerCall =
  CreateSession int int "(string \<times> string) list" string
  | UpdateSessionStatus string SessionStatus
  | AddMessageVersion string string bool "int option"
  | RecordChunk string
  | RecordError string Error
  | RecordRetry string
  | SetContextData string string string
  | CleanupSession string
  | PerformCleanup

fun applyManagerCall :: "int \<times> managerCall \<Rightarrow> StreamStateManager \<Rightarrow> StreamStateManager" where
  "applyManagerCall (now, CreateSession chat user meta random) m =
     snd (createSession chat user meta now random m)"
| "applyManagerCall (now, UpdateSessionStatus sid st) m = snd (updateSessionStatus sid st now m)"
| "applyManagerCall (now, AddMessageVersion sid text' sent telegramId) m =
     snd (addMessageVersion sid text' sent telegramId now m)"
| "applyManagerCall (now, RecordChunk sid) m = snd (recordChunk sid now m)"
| "applyManagerCall (now, RecordError sid error) m = snd (recordError sid error now m)"
| "applyManagerCall (now, RecordRetry sid) m = snd (recordRetry sid now m)"
| "applyManagerCall (now, SetContextData sid key val) m = snd (setContextData sid key val m)"
| "applyManagerCall (now, CleanupSession sid) m = snd (cleanupSession sid m)"
| "applyManagerCall (now, PerformCleanup) m = snd (performCleanup now m)"

definition runManager :: "(int \<times> managerCall) list \<Rightarrow> StreamStateManager \<Rightarrow> StreamStateManager" where
  "runManager calls m = fold applyManagerCall calls m"

text \<open>The version numbers of a context are 1, 2, ..., up to its current version.\<close>

definition gaplessVersions :: "StreamContext \<Rightarrow> bool" where
  "gaplessVersions context \<longleftrightarrow>
     map version (messageVersions context) = [1 ..< Suc (currentVersion context)]"

text \<open>
  What holds of a manager in every state it reaches: the keys of the session map are
  distinct, the configuration is the one it was built with, and every context has gapless
  version numbers.
\<close>

definition managerInvariant :: "CleanupConfig \<Rightarrow> StreamStateManager \<Rightarrow> bool" where
  "managerInvariant cfg m \<longleftrightarrow>
     distinct (map fst (sessions m)) \<and> cleanupConfig m = cfg
     \<and> (\<forall>entry \<in> set (contexts m). gaplessVersions (snd entry))"

chapter \<open>Properties\<close>

subsection \<open>Properties of the token bucket\<close>

lemma refill_config: "configTB (refill now tb) = configTB tb"
  by (simp add: refill_def Let_def)

lemma refill_within:
  assumes "0 \<le> bucketCapacity (configTB tb)" and "0 \<le> refillRate (configTB tb)"
    and "withinCapacity tb"
  shows "withinCapacity (refill now tb)"
proof (cases "real_of_int (now - lastRefillTime tb) / 1000 > 0")
  case True
  then have "0 \<le> real_of_int (now - lastRefillTime tb) / 1000 * refillRate (configTB tb)"
    using assms(2) by simp
  then show ?thesis
    using True assms(1,3) by (simp add: refill_def withinCapacity_def Let_def)
next
  case False
  then show ?thesis
    using assms(3) by (simp add: refill_def Let_def)
qed

lemma applyCall_config: "configTB (applyCall c tb) = configTB tb"
proof (cases c)
  case (Pair now k)
  then show ?thesis
    by (cases k)
       (simp_all add: consume_def getAvailableTokens_def getNextTokenTime_def Let_def
          refill_config)
qed

lemma applyCall_within:
  assumes "0 \<le> bucketCapacity (configTB tb)" and "0 \<le> refillRate (configTB tb)"
    and "nonNegativeCall c" and "withinCapacity tb"
  shows "withinCapacity (applyCall c tb)"
proof -
  have r: "withinCapacity (refill now tb)" for now
    using assms(1,2,4) by (rule refill_within)
  obtain now k where c: "c = (now, k)"
    by (cases c)
  show ?thesis
  proof (cases k)
    case (Consume n)
    then show ?thesis
      using r [of now] assms(3) c
      by (auto simp: consume_def Let_def withinCapacity_def refill_config)
  next
    case GetAvailableTokens
    then show ?thesis
      using r [of now] c by (simp add: getAvailableTokens_def Let_def)
  next
    case (GetNextTokenTime n)
    then show ?thesis
      using r [of now] c by (simp add: getNextTokenTime_def Let_def)
  qed
qed

lemma runCalls_within:
  assumes "0 \<le> bucketCapacity (configTB tb)" and "0 \<le> refillRate (configTB tb)"
    and "\<forall>c \<in> set calls. nonNegativeCall c" and "withinCapacity tb"
  shows "withinCapacity (runCalls calls tb) \<and> configTB (runCalls calls tb) = configTB tb"
  using assms unfolding runCalls_def
proof (induction calls arbitrary: tb)
  case Nil
  then show ?case by simp
next
  case (Cons c calls)
  have "withinCapacity (applyCall c tb)"
    using Cons.prems by (intro applyCall_within) simp_all
  moreover have "configTB (applyCall c tb) = configTB tb"
    by (rule applyCall_config)
  ultimately show ?case
    using Cons.IH [of "applyCall c tb"] Cons.prems by simp
qed

text \<open>
  C1 (as amended). For a bucket built with capacity \<open>C \<ge> 0\<close> and refill rate \<open>r \<ge> 0\<close>, after
  every sequence of \<open>consume(n)\<close> (each with \<open>n \<ge> 0\<close>), \<open>getAvailableTokens()\<close> and
  \<open>getNextTokenTime()\<close> calls at arbitrary clock readings the token count lies between 0
  and \<open>C\<close>. In every state of the bucket whatever, a \<open>consume(n)\<close> that finds fewer than
  \<open>n\<close> tokens available (after the lazy refill of that call) returns false and leaves
  exactly the available count, and a successful one leaves the available count minus \<open>n\<close>.
\<close>

theorem token_bucket_bounds:
  assumes "0 \<le> bucketCapacity cfg" and "0 \<le> refillRate cfg"
    and "\<forall>c \<in> set calls. nonNegativeCall c"
  shows "0 \<le> tokens (runCalls calls (newTokenBucket cfg start))
       \<and> tokens (runCalls calls (newTokenBucket cfg start)) \<le> bucketCapacity cfg
       \<and> (fst (getAvailableTokens now tb) < n \<longrightarrow>
            fst (consume n now tb) = False
          \<and> tokens (snd (consume n now tb)) = fst (getAvailableTokens now tb))
       \<and> (n \<le> fst (getAvailableTokens now tb) \<longrightarrow>
            fst (consume n now tb) = True
          \<and> tokens (snd (consume n now tb)) = fst (getAvailableTokens now tb) - n)"
proof -
  let ?tb = "newTokenBucket cfg start"
  have cfg: "configTB ?tb = cfg"
    by (simp add: newTokenBucket_def)
  have "withinCapacity ?tb"
    using assms(1) by (simp add: withinCapacity_def newTokenBucket_def)
  then have "withinCapacity (runCalls calls ?tb) \<and> configTB (runCalls calls ?tb) = configTB ?tb"
    using assms cfg by (intro runCalls_within) simp_all
  then have "0 \<le> tokens (runCalls calls ?tb) \<and> tokens (runCalls calls ?tb) \<le> bucketCapacity cfg"
    using cfg by (auto simp: withinCapacity_def)
  then show ?thesis
    by (simp add: consume_def getAvailableTokens_def Let_def)
qed

theorem token_bucket_bounds_witness:
  "0 \<le> tokens (runCalls [(1000, Consume 30), (3000, GetAvailableTokens), (3000, Consume 2)]
                  (newTokenBucket telegramDefaults 0))
   \<and> tokens (runCalls [(1000, Consume 30), (3000, GetAvailableTokens), (3000, Consume 2)]
                  (newTokenBucket telegramDefaults 0)) \<le> 30
   \<and> fst (consume 2 3000 (runCalls [(1000, Consume 30)] (newTokenBucket telegramDefaults 0)))
       = False
   \<and> tokens (snd (consume 2 3000
        (runCalls [(1000, Consume 30)] (newTokenBucket telegramDefaults 0)))) = 1
   \<and> fst (consume 30 1000 (newTokenBucket telegramDefaults 0)) = True
   \<and> tokens (snd (consume 30 1000 (newTokenBucket telegramDefaults 0))) = 0"
  using token_bucket_bounds [where cfg = telegramDefaults and start = 0 and now = 3000 and n = 2
      and calls = "[(1000, Consume 30), (3000, GetAvailableTokens), (3000, Consume 2)]"
      and tb = "runCalls [(1000, Consume 30)] (newTokenBucket telegramDefaults 0)"]
    token_bucket_bounds [where cfg = telegramDefaults and start = 0 and now = 1000 and n = 30
      and calls = "[]" and tb = "newTokenBucket telegramDefaults 0"]
  by (simp add: telegramDefaults_def runCalls_def consume_def getAvailableTokens_def
      refill_def newTokenBucket_def Let_def)

text \<open>
  C1 as it is stated fails without the three sign conditions: \<open>consume(-1)\<close> on a full
  bucket of capacity 30 succeeds and leaves 31 tokens; a bucket built with capacity \<open>-5\<close>
  holds \<open>-5\<close> tokens; and with refill rate \<open>-1\<close> a read after 60 seconds finds \<open>-30\<close>.
\<close>

theorem token_bucket_bounds_counterexample:
  "\<not> tokens (runCalls [(0, Consume (-1))] (newTokenBucket telegramDefaults 0))
       \<le> bucketCapacity telegramDefaults
   \<and> \<not> 0 \<le> tokens (runCalls [] (newTokenBucket (telegramDefaults\<lparr>bucketCapacity := -5\<rparr>) 0))
   \<and> \<not> 0 \<le> tokens (runCalls [(60000, GetAvailableTokens)]
                (newTokenBucket (telegramDefaults\<lparr>refillRate := -1\<rparr>) 0))"
  by (simp add: telegramDefaults_def runCalls_def consume_def getAvailableTokens_def
      refill_def newTokenBucket_def Let_def)

subsection \<open>The pending queue\<close>

lemma take_findInsertIndex:
  "take (findInsertIndex r q) q
     = takeWhile (\<lambda>x. priorityValue (priority r) \<le> priorityValue (priority x)) q"
  by (induction q) auto

lemma drop_findInsertIndex:
  "drop (findInsertIndex r q) q
     = dropWhile (\<lambda>x. priorityValue (priority r) \<le> priorityValue (priority x)) q"
  by (induction q) auto

lemma priorityDescending_Cons:
  "priorityDescending (x # q) \<longleftrightarrow>
     (\<forall>y \<in> set q. priorityValue (priority y) \<le> priorityValue (priority x))
     \<and> priorityDescending q"
  by (simp add: priorityDescending_def)

lemma priorityDescending_tl: "priorityDescending (x # q) \<Longrightarrow> priorityDescending q"
  by (simp add: priorityDescending_Cons)

lemma descending_takeWhile_filter:
  assumes "priorityDescending q"
  shows "takeWhile (\<lambda>x. p \<le> priorityValue (priority x)) q
           = filter (\<lambda>x. p \<le> priorityValue (priority x)) q
       \<and> dropWhile (\<lambda>x. p \<le> priorityValue (priority x)) q
           = filter (\<lambda>x. priorityValue (priority x) < p) q"
  using assms
proof (induction q)
  case Nil
  then show ?case by simp
next
  case (Cons x q)
  show ?case
  proof (cases "p \<le> priorityValue (priority x)")
    case True
    then show ?thesis
      using Cons by (simp add: priorityDescending_Cons)
  next
    case False
    then have low: "\<forall>y \<in> set (x # q). priorityValue (priority y) < p"
      using Cons.prems by (auto simp: priorityDescending_Cons)
    then have "filter (\<lambda>x. p \<le> priorityValue (priority x)) (x # q) = []"
      by (auto simp: filter_empty_conv)
    moreover have "filter (\<lambda>x. priorityValue (priority x) < p) (x # q) = x # q"
      using low by (simp add: filter_id_conv)
    ultimately show ?thesis
      using False by simp
  qed
qed

lemma priorityDescending_insert:
  assumes "priorityDescending q"
  shows "priorityDescending
     (take (findInsertIndex r q) q @ r # drop (findInsertIndex r q) q)"
proof -
  define hi where "hi = takeWhile (\<lambda>x. priorityValue (priority r) \<le> priorityValue (priority x)) q"
  define lo where "lo = dropWhile (\<lambda>x. priorityValue (priority r) \<le> priorityValue (priority x)) q"
  let ?ge = "\<lambda>a b. priorityValue (priority b) \<le> priorityValue (priority a)"
  have q: "q = hi @ lo"
    by (simp add: hi_def lo_def)
  have s: "sorted_wrt ?ge hi" "sorted_wrt ?ge lo"
    and cross: "\<forall>x \<in> set hi. \<forall>y \<in> set lo. priorityValue (priority y) \<le> priorityValue (priority x)"
    using assms unfolding priorityDescending_def q sorted_wrt_append by blast+
  have above: "\<forall>x \<in> set hi. priorityValue (priority r) \<le> priorityValue (priority x)"
    unfolding hi_def by (blast dest: set_takeWhileD)
  have "lo = filter (\<lambda>x. priorityValue (priority x) < priorityValue (priority r)) q"
    unfolding lo_def using descending_takeWhile_filter [OF assms] by blast
  then have "\<forall>y \<in> set lo. priorityValue (priority y) < priorityValue (priority r)"
    by simp
  then have below: "\<forall>y \<in> set lo. priorityValue (priority y) \<le> priorityValue (priority r)"
    using less_imp_le by blast
  have "sorted_wrt ?ge (r # lo)"
    using s(2) below by simp
  moreover have "\<forall>x \<in> set hi. \<forall>y \<in> set (r # lo).
      priorityValue (priority y) \<le> priorityValue (priority x)"
    using cross above by simp
  ultimately have "sorted_wrt ?ge (hi @ r # lo)"
    using s(1) unfolding sorted_wrt_append by blast
  then show ?thesis
    by (simp add: priorityDescending_def take_findInsertIndex drop_findInsertIndex hi_def lo_def)
qed

lemma enqueueRequest_stable:
  assumes "priorityDescending (requestQueue rl)"
    and "real (length (requestQueue rl)) < maxQueueSize (configRL rl)"
  shows "requestQueue (enqueueRequest r rl) =
     filter (\<lambda>x. priorityValue (priority r) \<le> priorityValue (priority x)) (requestQueue rl)
     @ [r]
     @ filter (\<lambda>x. priorityValue (priority x) < priorityValue (priority r)) (requestQueue rl)"
  using assms(2) descending_takeWhile_filter [OF assms(1), of "priorityValue (priority r)"]
  by (simp add: enqueueRequest_def Let_def take_findInsertIndex drop_findInsertIndex)

subsection \<open>Invariants of the limiter\<close>

lemma enqueueRequest_fields:
  "configRL (enqueueRequest r rl) = configRL rl"
  "processing (enqueueRequest r rl) = processing rl"
  "suspended (enqueueRequest r rl) = suspended rl"
  "started (enqueueRequest r rl) = started rl"
  "sleeps (enqueueRequest r rl) = sleeps rl"
  "backoffStrategy (enqueueRequest r rl) = backoffStrategy rl"
  "tokenBucket (enqueueRequest r rl) = tokenBucket rl"
  by (simp_all add: enqueueRequest_def Let_def)

lemma enqueueRequest_descending:
  assumes "priorityDescending (requestQueue rl)"
  shows "priorityDescending (requestQueue (enqueueRequest r rl))"
proof (cases "real (length (requestQueue rl)) \<ge> maxQueueSize (configRL rl)")
  case True
  then show ?thesis
    using assms by (simp add: enqueueRequest_def)
next
  case False
  then have "requestQueue (enqueueRequest r rl) =
      take (findInsertIndex r (requestQueue rl)) (requestQueue rl)
      @ r # drop (findInsertIndex r (requestQueue rl)) (requestQueue rl)"
    by (simp add: enqueueRequest_def Let_def)
  then show ?thesis
    using priorityDescending_insert [OF assms, of r] by simp
qed

lemma executeRequest_fields:
  "configRL (executeRequest r now rl) = configRL rl"
  "processing (executeRequest r now rl) = processing rl"
  "requestQueue (executeRequest r now rl) = requestQueue rl"
  "notices (executeRequest r now rl) = notices rl"
  "backoffStrategy (executeRequest r now rl) = backoffStrategy rl"
  "suspended (executeRequest r now rl) = AwaitRequest r
     \<or> suspended (executeRequest r now rl) = AwaitTokens r"
  by (simp_all add: executeRequest_def invokeRequest_def split: prod.splits bool.splits)

lemma continueLoop_invariant:
  assumes "priorityDescending (requestQueue rl)" and "configRL rl = cfg" and "processing rl"
  shows "limiterInvariant cfg (continueLoop now rl)"
proof (cases "requestQueue rl")
  case Nil
  then show ?thesis
    using assms by (simp add: continueLoop_def limiterInvariant_def)
next
  case (Cons r rest)
  have "priorityDescending rest"
    using assms(1) Cons by (simp add: priorityDescending_Cons)
  then show ?thesis
    using assms Cons executeRequest_fields(6) [of r now "rl\<lparr>requestQueue := rest\<rparr>"]
    by (auto simp: continueLoop_def limiterInvariant_def executeRequest_fields(1-5))
qed

lemma execute_invariant:
  assumes "limiterInvariant cfg rl"
  shows "limiterInvariant cfg (execute i p k now rl)"
proof -
  let ?rl = "enqueueRequest \<lparr>ident = i, priority = p, timestamp = now, retryCount = k\<rparr> rl"
  have d: "priorityDescending (requestQueue ?rl)"
    using assms by (simp add: limiterInvariant_def enqueueRequest_descending)
  show ?thesis
  proof (cases "processing ?rl \<or> requestQueue ?rl = []")
    case True
    then show ?thesis
      using assms d
      by (auto simp: execute_def processQueue_def limiterInvariant_def enqueueRequest_fields)
  next
    case False
    have "limiterInvariant cfg (continueLoop now (?rl\<lparr>processing := True\<rparr>))"
      using assms d by (intro continueLoop_invariant)
        (simp_all add: limiterInvariant_def enqueueRequest_fields)
    then show ?thesis
      using False by (simp add: execute_def processQueue_def)
  qed
qed

lemma step_invariant:
  assumes "limiterInvariant cfg rl"
  shows "limiterInvariant cfg (step e rl)"
proof -
  obtain now k where e: "e = (now, k)"
    by (cases e)
  show ?thesis
  proof (cases k)
    case (Execute i p n)
    then show ?thesis
      using assms e by (simp add: execute_invariant)
  next
    case (Settle out rnd)
    show ?thesis
    proof (cases "suspended rl")
      case (AwaitRequest r)
      then show ?thesis
        using assms e Settle
        by (cases out) (auto simp: limiterInvariant_def Let_def)
    qed (use assms e Settle in simp_all)
  next
    case Resume
    show ?thesis
    proof (cases "suspended rl")
      case NotRunning
      then show ?thesis
        using assms e Resume by simp
    next
      case (AwaitTokens r)
      then show ?thesis
        using assms e Resume by (simp add: limiterInvariant_def invokeRequest_def)
    next
      case (AwaitRequest r)
      then show ?thesis
        using assms e Resume by simp
    next
      case (AwaitBackoff r)
      then show ?thesis
        using assms e Resume
        by (simp add: limiterInvariant_def requeueRequest_def enqueueRequest_fields
            enqueueRequest_descending)
    next
      case AwaitLoop
      have "limiterInvariant cfg (continueLoop now rl)"
        using assms AwaitLoop by (intro continueLoop_invariant) (simp_all add: limiterInvariant_def)
      then show ?thesis
        using e Resume AwaitLoop by simp
    qed
  qed
qed

lemma runEvents_invariant:
  "limiterInvariant cfg (runEvents evs (newAdvancedRateLimiter cfg start))"
proof -
  have "limiterInvariant cfg rl \<Longrightarrow> limiterInvariant cfg (fold step evs rl)" for rl
    by (induction evs arbitrary: rl) (simp_all add: step_invariant)
  moreover have "limiterInvariant cfg (newAdvancedRateLimiter cfg start)"
    by (simp add: limiterInvariant_def newAdvancedRateLimiter_def priorityDescending_def)
  ultimately show ?thesis
    by (simp add: runEvents_def)
qed

subsection \<open>Order of execution\<close>

lemma resume_dequeues_head:
  assumes "suspended rl = AwaitLoop" and "requestQueue rl = r # rest"
  shows "requestQueue (step (now, Resume) rl) = rest
     \<and> (suspended (step (now, Resume) rl) = AwaitRequest r
        \<or> suspended (step (now, Resume) rl) = AwaitTokens r)"
  using assms executeRequest_fields(6) [of r now "rl\<lparr>requestQueue := rest\<rparr>"]
  by (simp add: continueLoop_def executeRequest_fields(3))

lemma in_flight_blocks_start:
  assumes "limiterInvariant cfg rl" and "suspended rl = AwaitRequest r"
  shows "started (step e rl) = started rl"
proof -
  obtain now k where e: "e = (now, k)"
    by (cases e)
  have p: "processing rl"
    using assms by (simp add: limiterInvariant_def)
  show ?thesis
  proof (cases k)
    case (Execute i p' n)
    then show ?thesis
      using e p by (simp add: execute_def processQueue_def enqueueRequest_fields)
  next
    case (Settle out rnd)
    then show ?thesis
      using e assms(2) by (cases out) (simp_all add: Let_def)
  next
    case Resume
    then show ?thesis
      using e assms(2) by simp
  qed
qed

lemma idle_submission_dequeued:
  assumes "limiterInvariant cfg rl" and "suspended rl = NotRunning" and "0 < maxQueueSize cfg"
  shows "requestQueue (step (now, Execute i p k) rl) = []
     \<and> (suspended (step (now, Execute i p k) rl)
           = AwaitRequest \<lparr>ident = i, priority = p, timestamp = now, retryCount = k\<rparr>
        \<or> suspended (step (now, Execute i p k) rl)
           = AwaitTokens \<lparr>ident = i, priority = p, timestamp = now, retryCount = k\<rparr>)"
proof -
  let ?r = "\<lparr>ident = i, priority = p, timestamp = now, retryCount = k\<rparr>"
  have idle: "\<not> processing rl" "requestQueue rl = []" "configRL rl = cfg"
    using assms(1,2) by (simp_all add: limiterInvariant_def)
  then have "enqueueRequest ?r rl = rl\<lparr>requestQueue := [?r]\<rparr>"
    using assms(3) by (simp add: enqueueRequest_def)
  then have "step (now, Execute i p k) rl
      = executeRequest ?r now (rl\<lparr>processing := True, requestQueue := []\<rparr>)"
    using idle by (simp add: execute_def processQueue_def continueLoop_def)
  then show ?thesis
    using executeRequest_fields(6) [of ?r now "rl\<lparr>processing := True, requestQueue := []\<rparr>"]
    by (simp add: executeRequest_fields(3))
qed

text \<open>
  C2 (as amended). In every state the limiter reaches from its construction, the pending
  operations are in priority-descending order, and a new request for which there is room
  is placed behind every pending request of the same or a higher priority and before all
  of lower priority, the others keeping their order. Operations are executed one at a
  time: the loop takes the head of the pending queue, only when it returns from the
  previous operation, and no event starts an operation while another is in flight. An
  operation submitted to an idle limiter is taken out of the queue by that same call, so
  priorities order only the operations that are pending together: four operations with
  priorities LOW, URGENT, NORMAL, URGENT submitted while an operation \<open>X\<close> is in flight are
  executed in the order URGENT, URGENT, NORMAL, LOW after it.
\<close>

theorem queue_priority_order:
  assumes "rl = runEvents evs (newAdvancedRateLimiter cfg start)"
  shows "priorityDescending (requestQueue rl)
   \<and> (real (length (requestQueue rl)) < maxQueueSize cfg \<longrightarrow>
        requestQueue (enqueueRequest request rl) =
          filter (\<lambda>x. priorityValue (priority request) \<le> priorityValue (priority x))
            (requestQueue rl)
          @ [request]
          @ filter (\<lambda>x. priorityValue (priority x) < priorityValue (priority request))
              (requestQueue rl))
   \<and> (suspended rl = AwaitLoop \<and> requestQueue rl = r # rest \<longrightarrow>
        requestQueue (step (now, Resume) rl) = rest
        \<and> (suspended (step (now, Resume) rl) = AwaitRequest r
           \<or> suspended (step (now, Resume) rl) = AwaitTokens r))
   \<and> (suspended rl = AwaitRequest r \<longrightarrow> started (step e rl) = started rl)
   \<and> (suspended rl = NotRunning \<and> 0 < maxQueueSize cfg \<longrightarrow>
        requestQueue (step (now, Execute i p k) rl) = []
        \<and> (suspended (step (now, Execute i p k) rl)
              = AwaitRequest \<lparr>ident = i, priority = p, timestamp = now, retryCount = k\<rparr>
           \<or> suspended (step (now, Execute i p k) rl)
              = AwaitTokens \<lparr>ident = i, priority = p, timestamp = now, retryCount = k\<rparr>))
   \<and> started (runEvents
         [(0, Execute ''X'' NORMAL 0),
          (1, Execute ''L'' LOW 0), (2, Execute ''U1'' URGENT 0),
          (3, Execute ''N'' NORMAL 0), (4, Execute ''U2'' URGENT 0),
          (5, Settle Success 0), (5, Resume), (6, Settle Success 0), (6, Resume),
          (7, Settle Success 0), (7, Resume), (8, Settle Success 0), (8, Resume),
          (9, Settle Success 0), (9, Resume)]
         (newAdvancedRateLimiter telegramDefaults 0))
       = [''X'', ''U1'', ''U2'', ''N'', ''L'']"
proof -
  have inv: "limiterInvariant cfg rl"
    unfolding assms by (rule runEvents_invariant)
  then have d: "priorityDescending (requestQueue rl)" and c: "configRL rl = cfg"
    by (simp_all add: limiterInvariant_def)
  have example: "started (runEvents
         [(0, Execute ''X'' NORMAL 0),
          (1, Execute ''L'' LOW 0), (2, Execute ''U1'' URGENT 0),
          (3, Execute ''N'' NORMAL 0), (4, Execute ''U2'' URGENT 0),
          (5, Settle Success 0), (5, Resume), (6, Settle Success 0), (6, Resume),
          (7, Settle Success 0), (7, Resume), (8, Settle Success 0), (8, Resume),
          (9, Settle Success 0), (9, Resume)]
         (newAdvancedRateLimiter telegramDefaults 0))
       = [''X'', ''U1'', ''U2'', ''N'', ''L'']"
    by (simp add: runEvents_def execute_def enqueueRequest_def processQueue_def
        continueLoop_def executeRequest_def invokeRequest_def consume_def refill_def
        newAdvancedRateLimiter_def newTokenBucket_def newBackoffStrategy_def
        telegramDefaults_def recordSuccess_def Let_def)
  show ?thesis
    using d c enqueueRequest_stable [OF d, of request]
      resume_dequeues_head [of rl r rest now]
      in_flight_blocks_start [OF inv, of r e]
      idle_submission_dequeued [OF inv, of now i p k] example
    by (intro conjI impI) simp_all
qed

theorem queue_priority_order_witness:
  "priorityDescending (requestQueue (runEvents
       [(0, Execute ''X'' NORMAL 0), (1, Execute ''L'' LOW 0), (2, Execute ''U1'' URGENT 0),
        (3, Execute ''N'' NORMAL 0)] (newAdvancedRateLimiter telegramDefaults 0)))
   \<and> suspended (runEvents
       [(0, Execute ''X'' NORMAL 0), (1, Execute ''L'' LOW 0), (2, Execute ''U1'' URGENT 0),
        (3, Execute ''N'' NORMAL 0)] (newAdvancedRateLimiter telegramDefaults 0))
       = AwaitRequest \<lparr>ident = ''X'', priority = NORMAL, timestamp = 0, retryCount = 0\<rparr>
   \<and> map ident (requestQueue (runEvents
       [(0, Execute ''X'' NORMAL 0), (1, Execute ''L'' LOW 0), (2, Execute ''U1'' URGENT 0),
        (3, Execute ''N'' NORMAL 0)] (newAdvancedRateLimiter telegramDefaults 0)))
       = [''U1'', ''N'', ''L'']
   \<and> map ident (requestQueue (enqueueRequest
         \<lparr>ident = ''U2'', priority = URGENT, timestamp = 4, retryCount = 0\<rparr>
         (runEvents
           [(0, Execute ''X'' NORMAL 0), (1, Execute ''L'' LOW 0), (2, Execute ''U1'' URGENT 0),
            (3, Execute ''N'' NORMAL 0)] (newAdvancedRateLimiter telegramDefaults 0))))
       = [''U1'', ''U2'', ''N'', ''L'']
   \<and> started (step (4, Execute ''U2'' URGENT 0) (runEvents
       [(0, Execute ''X'' NORMAL 0), (1, Execute ''L'' LOW 0), (2, Execute ''U1'' URGENT 0),
        (3, Execute ''N'' NORMAL 0)] (newAdvancedRateLimiter telegramDefaults 0)))
       = [''X'']
   \<and> suspended (runEvents
       [(0, Execute ''X'' NORMAL 0), (1, Execute ''L'' LOW 0), (5, Settle Success 0)]
       (newAdvancedRateLimiter telegramDefaults 0)) = AwaitLoop
   \<and> suspended (step (5, Resume) (runEvents
       [(0, Execute ''X'' NORMAL 0), (1, Execute ''L'' LOW 0), (5, Settle Success 0)]
       (newAdvancedRateLimiter telegramDefaults 0)))
       = AwaitRequest \<lparr>ident = ''L'', priority = LOW, timestamp = 1, retryCount = 0\<rparr>
   \<and> suspended (runEvents [] (newAdvancedRateLimiter telegramDefaults 0)) = NotRunning
   \<and> requestQueue (step (0, Execute ''X'' NORMAL 0)
         (runEvents [] (newAdvancedRateLimiter telegramDefaults 0))) = []"
proof -
  let ?new = "newAdvancedRateLimiter telegramDefaults 0"
  let ?busy = "runEvents
       [(0, Execute ''X'' NORMAL 0), (1, Execute ''L'' LOW 0), (2, Execute ''U1'' URGENT 0),
        (3, Execute ''N'' NORMAL 0)] ?new"
  let ?looping = "runEvents
       [(0, Execute ''X'' NORMAL 0), (1, Execute ''L'' LOW 0), (5, Settle Success 0)] ?new"
  let ?L = "\<lparr>ident = ''L'', priority = LOW, timestamp = 1, retryCount = 0\<rparr>"
  let ?U2 = "\<lparr>ident = ''U2'', priority = URGENT, timestamp = 4, retryCount = 0\<rparr>"
  note defs = runEvents_def execute_def enqueueRequest_def processQueue_def
    continueLoop_def executeRequest_def invokeRequest_def consume_def refill_def
    newAdvancedRateLimiter_def newTokenBucket_def newBackoffStrategy_def
    telegramDefaults_def recordSuccess_def Let_def
  have busy: "suspended ?busy
      = AwaitRequest \<lparr>ident = ''X'', priority = NORMAL, timestamp = 0, retryCount = 0\<rparr>"
    "requestQueue ?busy =
       [\<lparr>ident = ''U1'', priority = URGENT, timestamp = 2, retryCount = 0\<rparr>,
        \<lparr>ident = ''N'', priority = NORMAL, timestamp = 3, retryCount = 0\<rparr>, ?L]"
    "started ?busy = [''X'']"
    by (simp_all add: defs)
  have looping: "suspended ?looping = AwaitLoop" "requestQueue ?looping = ?L # []"
    by (simp_all add: defs)
  have idle: "suspended (runEvents [] ?new) = NotRunning"
    by (simp add: defs)
  have room: "real (length (requestQueue ?busy)) < maxQueueSize telegramDefaults"
    unfolding busy by (simp add: telegramDefaults_def)
  have positive: "0 < maxQueueSize telegramDefaults"
    by (simp add: telegramDefaults_def)
  have a: "priorityDescending (requestQueue ?busy)"
    "requestQueue (enqueueRequest ?U2 ?busy) =
       filter (\<lambda>x. priorityValue (priority ?U2) \<le> priorityValue (priority x))
         (requestQueue ?busy)
       @ [?U2]
       @ filter (\<lambda>x. priorityValue (priority x) < priorityValue (priority ?U2))
           (requestQueue ?busy)"
    "started (step (4, Execute ''U2'' URGENT 0) ?busy) = started ?busy"
    using queue_priority_order [OF refl, where evs = "[(0, Execute ''X'' NORMAL 0),
        (1, Execute ''L'' LOW 0), (2, Execute ''U1'' URGENT 0), (3, Execute ''N'' NORMAL 0)]"
        and cfg = telegramDefaults and start = 0 and request = ?U2
        and e = "(4, Execute ''U2'' URGENT 0)"
        and r = "\<lparr>ident = ''X'', priority = NORMAL, timestamp = 0, retryCount = 0\<rparr>"]
      room busy(1)
    by blast+
  have b: "suspended (step (5, Resume) ?looping) = AwaitRequest ?L
        \<or> suspended (step (5, Resume) ?looping) = AwaitTokens ?L"
    using queue_priority_order [OF refl, where evs = "[(0, Execute ''X'' NORMAL 0),
        (1, Execute ''L'' LOW 0), (5, Settle Success 0)]"
        and cfg = telegramDefaults and start = 0 and r = ?L and rest = "[]" and now = 5]
      looping
    by blast
  have c: "requestQueue (step (0, Execute ''X'' NORMAL 0) (runEvents [] ?new)) = []"
    using queue_priority_order [OF refl, where evs = "[]" and cfg = telegramDefaults
        and start = 0 and now = 0 and i = "''X''" and p = NORMAL and k = 0]
      idle positive
    by blast
  have b': "suspended (step (5, Resume) ?looping) = AwaitRequest ?L"
    by (simp add: defs)
  show ?thesis
    using a b' c busy looping(1) idle unfolding a(2) busy(2) by simp
qed

text \<open>
  C2 as it is stated fails for an idle limiter: the first submission starts the loop, which
  takes that operation out of the queue at once, so the four operations submitted with
  priorities LOW, URGENT, NORMAL, URGENT are executed in the order LOW, URGENT, URGENT,
  NORMAL.
\<close>

theorem queue_priority_order_counterexample:
  "started (runEvents
      [(0, Execute ''L'' LOW 0), (0, Execute ''U1'' URGENT 0),
       (0, Execute ''N'' NORMAL 0), (0, Execute ''U2'' URGENT 0),
       (5, Settle Success 0), (5, Resume), (6, Settle Success 0), (6, Resume),
       (7, Settle Success 0), (7, Resume), (8, Settle Success 0), (8, Resume)]
      (newAdvancedRateLimiter telegramDefaults 0))
     = [''L'', ''U1'', ''U2'', ''N'']
   \<and> [''L'', ''U1'', ''U2'', ''N''] \<noteq> [''U1'', ''U2'', ''N'', ''L'']"
  by (simp add: runEvents_def execute_def enqueueRequest_def processQueue_def
      continueLoop_def executeRequest_def invokeRequest_def consume_def refill_def
      newAdvancedRateLimiter_def newTokenBucket_def newBackoffStrategy_def
      telegramDefaults_def recordSuccess_def Let_def)

subsection \<open>Backpressure\<close>

text \<open>
  C9. In every state the limiter reaches from its construction, a submission that finds
  the pending queue holding \<open>maxQueueSize\<close> operations (or more) is rejected at once with
  the error "Request queue is full", and that is all that happens: the pending queue, the
  operation in flight, the loop and the record of delays are as before, so nothing is
  added, removed, started or retried.
\<close>

theorem queue_full_rejection:
  assumes "rl = runEvents evs (newAdvancedRateLimiter cfg start)"
    and "real (length (requestQueue rl)) \<ge> maxQueueSize cfg"
  shows "step (now, Execute i p k) rl
           = rl\<lparr>notices := notices rl @ [Rejected i ''Request queue is full'']\<rparr>
       \<and> requestQueue (step (now, Execute i p k) rl) = requestQueue rl
       \<and> suspended (step (now, Execute i p k) rl) = suspended rl
       \<and> started (step (now, Execute i p k) rl) = started rl
       \<and> sleeps (step (now, Execute i p k) rl) = sleeps rl"
proof -
  have inv: "limiterInvariant cfg rl"
    unfolding assms(1) by (rule runEvents_invariant)
  let ?r = "\<lparr>ident = i, priority = p, timestamp = now, retryCount = k\<rparr>"
  let ?rl = "rl\<lparr>notices := notices rl @ [Rejected i ''Request queue is full'']\<rparr>"
  have "enqueueRequest ?r rl = ?rl"
    using inv assms(2) by (simp add: enqueueRequest_def limiterInvariant_def)
  moreover have "processQueue now ?rl = ?rl"
    using inv by (auto simp: processQueue_def limiterInvariant_def)
  ultimately have "step (now, Execute i p k) rl = ?rl"
    by (simp add: execute_def)
  then show ?thesis
    by simp
qed

theorem queue_full_rejection_witness:
  "real (length (requestQueue (runEvents
       [(0, Execute ''a'' NORMAL 0), (1, Execute ''b'' NORMAL 0), (2, Execute ''c'' HIGH 0)]
       (newAdvancedRateLimiter (telegramDefaults\<lparr>maxQueueSize := 2\<rparr>) 0))))
     \<ge> maxQueueSize (telegramDefaults\<lparr>maxQueueSize := 2\<rparr>)
   \<and> notices (step (3, Execute ''d'' URGENT 0) (runEvents
       [(0, Execute ''a'' NORMAL 0), (1, Execute ''b'' NORMAL 0), (2, Execute ''c'' HIGH 0)]
       (newAdvancedRateLimiter (telegramDefaults\<lparr>maxQueueSize := 2\<rparr>) 0)))
       = [Rejected ''d'' ''Request queue is full'']
   \<and> map ident (requestQueue (step (3, Execute ''d'' URGENT 0) (runEvents
       [(0, Execute ''a'' NORMAL 0), (1, Execute ''b'' NORMAL 0), (2, Execute ''c'' HIGH 0)]
       (newAdvancedRateLimiter (telegramDefaults\<lparr>maxQueueSize := 2\<rparr>) 0))))
       = [''c'', ''b'']"
proof -
  let ?cfg = "telegramDefaults\<lparr>maxQueueSize := 2\<rparr>"
  let ?full = "runEvents
       [(0, Execute ''a'' NORMAL 0), (1, Execute ''b'' NORMAL 0), (2, Execute ''c'' HIGH 0)]
       (newAdvancedRateLimiter ?cfg 0)"
  have full: "requestQueue ?full =
       [\<lparr>ident = ''c'', priority = HIGH, timestamp = 2, retryCount = 0\<rparr>,
        \<lparr>ident = ''b'', priority = NORMAL, timestamp = 1, retryCount = 0\<rparr>]"
    "notices ?full = []"
    by (simp_all add: runEvents_def execute_def enqueueRequest_def processQueue_def
        continueLoop_def executeRequest_def invokeRequest_def consume_def refill_def
        newAdvancedRateLimiter_def newTokenBucket_def newBackoffStrategy_def
        telegramDefaults_def Let_def)
  have h: "real (length (requestQueue ?full)) \<ge> maxQueueSize ?cfg"
    unfolding full by (simp add: telegramDefaults_def)
  have "step (3, Execute ''d'' URGENT 0) ?full
      = ?full\<lparr>notices := notices ?full @ [Rejected ''d'' ''Request queue is full'']\<rparr>"
    using queue_full_rejection [OF refl h, of 3 "''d''" URGENT 0] by blast
  then show ?thesis
    using h full by simp
qed

subsection \<open>Retry after a failure\<close>

text \<open>
  C3 (as amended). When the operation in flight fails, the limiter records the failure and
  retries exactly when the request's retry count is below 3 and the limiter's own test
  \<open>shouldRetry\<close> accepts the failure's message (whatever the classifier's policy for that
  failure is): it then sleeps the backoff delay computed after the failure was recorded,
  and after the sleep puts the request back with its retry count incremented if the
  pending queue has room, and rejects the caller with "Request queue is full" if it has
  not. Otherwise the caller is rejected with the failure itself, and nothing is put back.
\<close>

lemma enqueueRequest_room:
  assumes "real (length (requestQueue rl)) < maxQueueSize (configRL rl)"
  shows "r \<in> set (requestQueue (enqueueRequest r rl))
     \<and> length (requestQueue (enqueueRequest r rl)) = Suc (length (requestQueue rl))
     \<and> notices (enqueueRequest r rl) = notices rl"
proof -
  have "requestQueue (enqueueRequest r rl) =
      take (findInsertIndex r (requestQueue rl)) (requestQueue rl)
      @ r # drop (findInsertIndex r (requestQueue rl)) (requestQueue rl)"
    and "notices (enqueueRequest r rl) = notices rl"
    using assms by (simp_all add: enqueueRequest_def Let_def)
  moreover have "length (take n q @ r # drop n q) = Suc (length q)" for n and q :: "QueuedRequest list"
    by simp
  ultimately show ?thesis
    by simp
qed

lemma enqueueRequest_full:
  assumes "real (length (requestQueue rl)) \<ge> maxQueueSize (configRL rl)"
  shows "requestQueue (enqueueRequest r rl) = requestQueue rl
     \<and> notices (enqueueRequest r rl)
         = notices rl @ [Rejected (ident r) ''Request queue is full'']"
  using assms by (simp add: enqueueRequest_def)

theorem retry_decision:
  assumes "suspended rl = AwaitRequest request"
    and "failed = step (now, Settle (Failure error) rnd) rl"
    and "suspended slept = AwaitBackoff request"
  shows "(retryCount request < 3 \<and> shouldRetry error \<longrightarrow>
           suspended failed = AwaitBackoff request
         \<and> sleeps failed = sleeps rl
              @ [Millis (calculateDelay (Some error) rnd (recordFailure (backoffStrategy rl)))]
         \<and> notices failed = notices rl
         \<and> requestQueue failed = requestQueue rl)
       \<and> (\<not> (retryCount request < 3 \<and> shouldRetry error) \<longrightarrow>
           suspended failed = AwaitLoop
         \<and> notices failed = notices rl @ [Rejected (ident request) (message error)]
         \<and> sleeps failed = sleeps rl
         \<and> requestQueue failed = requestQueue rl)
       \<and> (real (length (requestQueue slept)) < maxQueueSize (configRL slept) \<longrightarrow>
           request\<lparr>retryCount := retryCount request + 1\<rparr>
             \<in> set (requestQueue (step (later, Resume) slept))
         \<and> length (requestQueue (step (later, Resume) slept))
             = Suc (length (requestQueue slept))
         \<and> notices (step (later, Resume) slept) = notices slept)
       \<and> (real (length (requestQueue slept)) \<ge> maxQueueSize (configRL slept) \<longrightarrow>
           requestQueue (step (later, Resume) slept) = requestQueue slept
         \<and> notices (step (later, Resume) slept)
             = notices slept @ [Rejected (ident request) ''Request queue is full''])
       \<and> suspended (step (later, Resume) slept) = AwaitLoop"
proof -
  let ?again = "request\<lparr>retryCount := retryCount request + 1\<rparr>"
  have "step (later, Resume) slept = (enqueueRequest ?again slept)\<lparr>suspended := AwaitLoop\<rparr>"
    using assms(3) by (simp add: requeueRequest_def)
  then have after:
    "requestQueue (step (later, Resume) slept) = requestQueue (enqueueRequest ?again slept)"
    "notices (step (later, Resume) slept) = notices (enqueueRequest ?again slept)"
    "suspended (step (later, Resume) slept) = AwaitLoop"
    by simp_all
  have failed: "failed = settleRequest request (Failure error) rnd rl"
    using assms(1,2) by simp
  have retry: "retryCount request < 3 \<and> shouldRetry error \<longrightarrow>
           suspended failed = AwaitBackoff request
         \<and> sleeps failed = sleeps rl
              @ [Millis (calculateDelay (Some error) rnd (recordFailure (backoffStrategy rl)))]
         \<and> notices failed = notices rl
         \<and> requestQueue failed = requestQueue rl"
    unfolding failed by (simp add: Let_def)
  have reject: "\<not> (retryCount request < 3 \<and> shouldRetry error) \<longrightarrow>
           suspended failed = AwaitLoop
         \<and> notices failed = notices rl @ [Rejected (ident request) (message error)]
         \<and> sleeps failed = sleeps rl
         \<and> requestQueue failed = requestQueue rl"
    unfolding failed by (auto simp: Let_def)
  show ?thesis
    using retry reject after enqueueRequest_room [of slept ?again]
      enqueueRequest_full [of slept ?again]
    by simp
qed

theorem retry_decision_witness:
  "suspended (runEvents [(0, Execute ''r'' NORMAL 0)] (newAdvancedRateLimiter telegramDefaults 0))
     = AwaitRequest \<lparr>ident = ''r'', priority = NORMAL, timestamp = 0, retryCount = 0\<rparr>
   \<and> shouldRetry \<lparr>message = ''Rate limit exceeded''\<rparr>
   \<and> suspended (runEvents
        [(0, Execute ''r'' NORMAL 0), (5, Settle (Failure \<lparr>message = ''Rate limit exceeded''\<rparr>) 0.5)]
        (newAdvancedRateLimiter telegramDefaults 0))
     = AwaitBackoff \<lparr>ident = ''r'', priority = NORMAL, timestamp = 0, retryCount = 0\<rparr>
   \<and> sleeps (runEvents
        [(0, Execute ''r'' NORMAL 0), (5, Settle (Failure \<lparr>message = ''Rate limit exceeded''\<rparr>) 0.5)]
        (newAdvancedRateLimiter telegramDefaults 0))
     = [Millis 4000]
   \<and> requestQueue (runEvents
        [(0, Execute ''r'' NORMAL 0), (5, Settle (Failure \<lparr>message = ''Rate limit exceeded''\<rparr>) 0.5),
         (4005, Resume)]
        (newAdvancedRateLimiter telegramDefaults 0))
     = [\<lparr>ident = ''r'', priority = NORMAL, timestamp = 0, retryCount = 1\<rparr>]
   \<and> \<not> shouldRetry \<lparr>message = ''Forbidden: bot was blocked by the user''\<rparr>
   \<and> notices (runEvents
        [(0, Execute ''r'' NORMAL 0),
         (5, Settle (Failure \<lparr>message = ''Forbidden: bot was blocked by the user''\<rparr>) 0.5)]
        (newAdvancedRateLimiter telegramDefaults 0))
     = [Rejected ''r'' ''Forbidden: bot was blocked by the user'']"
proof -
  let ?new = "newAdvancedRateLimiter telegramDefaults 0"
  let ?r = "\<lparr>ident = ''r'', priority = NORMAL, timestamp = 0, retryCount = 0\<rparr>"
  let ?rate = "\<lparr>message = ''Rate limit exceeded''\<rparr>"
  let ?blocked = "\<lparr>message = ''Forbidden: bot was blocked by the user''\<rparr>"
  let ?running = "runEvents [(0, Execute ''r'' NORMAL 0)] ?new"
  let ?slept = "step (5, Settle (Failure ?rate) 0.5) ?running"
  note defs = runEvents_def execute_def enqueueRequest_def processQueue_def
    continueLoop_def executeRequest_def invokeRequest_def consume_def refill_def
    newAdvancedRateLimiter_def newTokenBucket_def newBackoffStrategy_def
    telegramDefaults_def Let_def
  have running: "suspended ?running = AwaitRequest ?r" "sleeps ?running = []"
    "notices ?running = []" "requestQueue ?running = []"
    "backoffStrategy ?running = newBackoffStrategy telegramDefaults"
    "configRL ?running = telegramDefaults"
    by (simp_all add: defs)
  have yes: "shouldRetry ?rate" and no: "\<not> shouldRetry ?blocked"
    by (simp_all add: shouldRetry_def toLowerCase_def toLowerChar_def)
  have delay: "calculateDelay (Some ?rate) 0.5 (recordFailure (newBackoffStrategy telegramDefaults))
      = 4000"
    by (simp add: calculateDelay_def errorMultiplier_def getErrorMultiplier_def jitterOf_def
        recordFailure_def newBackoffStrategy_def telegramDefaults_def toLowerCase_def
        toLowerChar_def Let_def)
  have slept: "suspended ?slept = AwaitBackoff ?r" "requestQueue ?slept = []"
    "configRL ?slept = telegramDefaults"
    using running yes by (simp_all add: Let_def)
  have room: "real (length (requestQueue ?slept)) < maxQueueSize (configRL ?slept)"
    unfolding slept by (simp add: telegramDefaults_def)
  have count: "retryCount ?r < 3"
    by simp
  have a: "sleeps ?slept = sleeps ?running
        @ [Millis (calculateDelay (Some ?rate) 0.5 (recordFailure (backoffStrategy ?running)))]"
    and b: "?r\<lparr>retryCount := retryCount ?r + 1\<rparr> \<in> set (requestQueue (step (4005, Resume) ?slept))"
    and c: "length (requestQueue (step (4005, Resume) ?slept)) = Suc (length (requestQueue ?slept))"
    using retry_decision [OF running(1) refl slept(1), where now = 5 and error = ?rate
        and rnd = "0.5" and later = 4005] count yes room
    by blast+
  have d: "notices (step (5, Settle (Failure ?blocked) 0.5) ?running)
      = notices ?running @ [Rejected (ident ?r) (message ?blocked)]"
    using retry_decision [OF running(1) refl slept(1), where now = 5 and error = ?blocked
        and rnd = "0.5" and later = 4005] no
    by blast
  have "requestQueue (step (4005, Resume) ?slept) = [?r\<lparr>retryCount := retryCount ?r + 1\<rparr>]"
    using b c unfolding slept(2) by (cases "requestQueue (step (4005, Resume) ?slept)") auto
  then show ?thesis
    using running slept yes no a d delay by (simp add: runEvents_def)
qed

text \<open>
  C3 as it is stated fails: a request that fails with a rate-limit error each time is
  invoked four times; at the fourth failure its retry count is 3, below the 5 retries the
  classifier allows for this retryable failure, and the limiter rejects the caller instead
  of putting the request back.
\<close>

theorem retry_decision_counterexample:
  "isRetryable (analyzeError \<lparr>message = ''Rate limit exceeded''\<rparr>)
   \<and> maxRetries (analyzeError \<lparr>message = ''Rate limit exceeded''\<rparr>) = 5
   \<and> suspended (runEvents
        [(0, Execute ''r'' NORMAL 0),
         (5, Settle (Failure \<lparr>message = ''Rate limit exceeded''\<rparr>) 0.5),
         (4005, Resume), (4005, Resume),
         (4010, Settle (Failure \<lparr>message = ''Rate limit exceeded''\<rparr>) 0.5),
         (12010, Resume), (12010, Resume),
         (12015, Settle (Failure \<lparr>message = ''Rate limit exceeded''\<rparr>) 0.5),
         (28015, Resume), (28015, Resume)]
        (newAdvancedRateLimiter telegramDefaults 0))
     = AwaitRequest \<lparr>ident = ''r'', priority = NORMAL, timestamp = 0, retryCount = 3\<rparr>
   \<and> (3::nat) < 5
   \<and> suspended (runEvents
        [(0, Execute ''r'' NORMAL 0),
         (5, Settle (Failure \<lparr>message = ''Rate limit exceeded''\<rparr>) 0.5),
         (4005, Resume), (4005, Resume),
         (4010, Settle (Failure \<lparr>message = ''Rate limit exceeded''\<rparr>) 0.5),
         (12010, Resume), (12010, Resume),
         (12015, Settle (Failure \<lparr>message = ''Rate limit exceeded''\<rparr>) 0.5),
         (28015, Resume), (28015, Resume),
         (28020, Settle (Failure \<lparr>message = ''Rate limit exceeded''\<rparr>) 0.5)]
        (newAdvancedRateLimiter telegramDefaults 0))
     = AwaitLoop
   \<and> notices (runEvents
        [(0, Execute ''r'' NORMAL 0),
         (5, Settle (Failure \<lparr>message = ''Rate limit exceeded''\<rparr>) 0.5),
         (4005, Resume), (4005, Resume),
         (4010, Settle (Failure \<lparr>message = ''Rate limit exceeded''\<rparr>) 0.5),
         (12010, Resume), (12010, Resume),
         (12015, Settle (Failure \<lparr>message = ''Rate limit exceeded''\<rparr>) 0.5),
         (28015, Resume), (28015, Resume),
         (28020, Settle (Failure \<lparr>message = ''Rate limit exceeded''\<rparr>) 0.5)]
        (newAdvancedRateLimiter telegramDefaults 0))
     = [Rejected ''r'' ''Rate limit exceeded'']
   \<and> requestQueue (runEvents
        [(0, Execute ''r'' NORMAL 0),
         (5, Settle (Failure \<lparr>message = ''Rate limit exceeded''\<rparr>) 0.5),
         (4005, Resume), (4005, Resume),
         (4010, Settle (Failure \<lparr>message = ''Rate limit exceeded''\<rparr>) 0.5),
         (12010, Resume), (12010, Resume),
         (12015, Settle (Failure \<lparr>message = ''Rate limit exceeded''\<rparr>) 0.5),
         (28015, Resume), (28015, Resume),
         (28020, Settle (Failure \<lparr>message = ''Rate limit exceeded''\<rparr>) 0.5)]
        (newAdvancedRateLimiter telegramDefaults 0))
     = []"
proof -
  have yes: "shouldRetry \<lparr>message = ''Rate limit exceeded''\<rparr>"
    by (simp add: shouldRetry_def toLowerCase_def toLowerChar_def)
  have policy: "isRetryable (analyzeError \<lparr>message = ''Rate limit exceeded''\<rparr>)
      \<and> maxRetries (analyzeError \<lparr>message = ''Rate limit exceeded''\<rparr>) = 5"
    by (simp add: analyzeError_def toLowerCase_def toLowerChar_def)
  show ?thesis
    using yes policy
    by (simp add: runEvents_def execute_def enqueueRequest_def processQueue_def
        continueLoop_def executeRequest_def invokeRequest_def requeueRequest_def
        consume_def refill_def newAdvancedRateLimiter_def newTokenBucket_def
        newBackoffStrategy_def telegramDefaults_def Let_def)
qed

subsection \<open>Properties of the classifier\<close>

lemma includesStr_sublist: "includesStr s p \<longleftrightarrow> sublist p s"
  by (induction s) (auto simp: sublist_Cons_right)

lemma includesStr_toLowerCase:
  assumes "includesStr s p" and "toLowerCase p = p"
  shows "includesStr (toLowerCase s) p"
proof -
  have "sublist (map toLowerChar p) (map toLowerChar s)"
    using assms(1) by (simp add: includesStr_sublist map_mono_sublist)
  then show ?thesis
    using assms(2) by (simp add: includesStr_sublist toLowerCase_def)
qed

lemma analyzeError_rate_limit:
  assumes "rateLimitMarker (toLowerCase (message e))"
  shows "analyzeError e =
     \<lparr>type = RATE_LIMIT, isRetryable = True, maxRetries = 5, strategy = RETRY,
      backoffMultiplier = 2.0, gracefulDegradation = None\<rparr>"
  using assms unfolding analyzeError_def rateLimitMarker_def Let_def by (simp only: if_True)

lemma analyzeError_recreate:
  assumes "\<not> rateLimitMarker (toLowerCase (message e))"
    and "staleTargetMarker (toLowerCase (message e))
         \<or> deletedTargetMarker (toLowerCase (message e))"
  shows "isRetryable (analyzeError e) = False \<and> maxRetries (analyzeError e) = 0
     \<and> strategy (analyzeError e) = RECREATE_MESSAGE
     \<and> (type (analyzeError e) = MESSAGE_TOO_OLD \<or> type (analyzeError e) = MESSAGE_DELETED)"
proof (cases "staleTargetMarker (toLowerCase (message e))")
  case True
  with assms(1) show ?thesis
    unfolding analyzeError_def rateLimitMarker_def staleTargetMarker_def Let_def
    by (simp only: if_True if_False) simp
next
  case False
  with assms have "deletedTargetMarker (toLowerCase (message e))"
    by simp
  with False assms(1) show ?thesis
    unfolding analyzeError_def rateLimitMarker_def staleTargetMarker_def
      deletedTargetMarker_def Let_def
    by (simp only: if_True if_False) simp
qed

lemma analyzeError_unknown:
  assumes "\<not> rateLimitMarker (toLowerCase (message e))"
    and "\<not> staleTargetMarker (toLowerCase (message e))"
    and "\<not> deletedTargetMarker (toLowerCase (message e))"
    and "\<not> otherMarker (toLowerCase (message e))"
  shows "analyzeError e =
     \<lparr>type = UNKNOWN, isRetryable = True, maxRetries = 2, strategy = RETRY,
      backoffMultiplier = 1.5, gracefulDegradation = None\<rparr>"
  using assms
  unfolding analyzeError_def rateLimitMarker_def staleTargetMarker_def
    deletedTargetMarker_def otherMarker_def Let_def
  by (simp only: de_Morgan_disj if_False simp_thms)

text \<open>
  C5 (as amended). The classifier is a function of the failure's message with no failing
  branch (its result type has no error value: the body only lowercases the message and
  searches it). A message that contains "too many requests", in any letter case, gets the
  rate-limited class: retryable, 5 retries, strategy retry, multiplier 2.0. A message that
  carries a marker of an expired or deleted edit target and none of the rate-limit markers
  (which are tested first) gets a non-retryable class with 0 retries and strategy recreate.
  A message with none of the recognised markers gets the unknown class: retryable,
  2 retries, strategy retry, multiplier 1.5.
\<close>

theorem classifier_policy:
  "(includesStr (message e) ''too many requests''
      \<or> includesStr (toLowerCase (message e)) ''too many requests'' \<longrightarrow>
      analyzeError e =
        \<lparr>type = RATE_LIMIT, isRetryable = True, maxRetries = 5, strategy = RETRY,
         backoffMultiplier = 2.0, gracefulDegradation = None\<rparr>)
   \<and> ((staleTargetMarker (toLowerCase (message e))
        \<or> deletedTargetMarker (toLowerCase (message e)))
       \<and> \<not> rateLimitMarker (toLowerCase (message e)) \<longrightarrow>
      isRetryable (analyzeError e) = False \<and> maxRetries (analyzeError e) = 0
      \<and> strategy (analyzeError e) = RECREATE_MESSAGE
      \<and> (type (analyzeError e) = MESSAGE_TOO_OLD \<or> type (analyzeError e) = MESSAGE_DELETED))
   \<and> (\<not> rateLimitMarker (toLowerCase (message e))
       \<and> \<not> staleTargetMarker (toLowerCase (message e))
       \<and> \<not> deletedTargetMarker (toLowerCase (message e))
       \<and> \<not> otherMarker (toLowerCase (message e)) \<longrightarrow>
      analyzeError e =
        \<lparr>type = UNKNOWN, isRetryable = True, maxRetries = 2, strategy = RETRY,
         backoffMultiplier = 1.5, gracefulDegradation = None\<rparr>)"
proof (intro conjI impI)
  assume "includesStr (message e) ''too many requests''
      \<or> includesStr (toLowerCase (message e)) ''too many requests''"
  moreover have "toLowerCase ''too many requests'' = ''too many requests''"
    by (simp add: toLowerCase_def toLowerChar_def)
  ultimately have "includesStr (toLowerCase (message e)) ''too many requests''"
    using includesStr_toLowerCase by blast
  then have "rateLimitMarker (toLowerCase (message e))"
    by (simp add: rateLimitMarker_def)
  then show "analyzeError e =
        \<lparr>type = RATE_LIMIT, isRetryable = True, maxRetries = 5, strategy = RETRY,
         backoffMultiplier = 2.0, gracefulDegradation = None\<rparr>"
    by (rule analyzeError_rate_limit)
qed (use analyzeError_recreate [of e] analyzeError_unknown [of e] in blast)+

theorem classifier_policy_witness:
  "(includesStr ''Too Many Requests: retry after 5'' ''too many requests''
     \<or> includesStr (toLowerCase ''Too Many Requests: retry after 5'') ''too many requests'')
   \<and> analyzeError \<lparr>message = ''Too Many Requests: retry after 5''\<rparr> =
     \<lparr>type = RATE_LIMIT, isRetryable = True, maxRetries = 5, strategy = RETRY,
      backoffMultiplier = 2.0, gracefulDegradation = None\<rparr>
   \<and> staleTargetMarker (toLowerCase ''Bad Request: message to edit not found'')
   \<and> \<not> rateLimitMarker (toLowerCase ''Bad Request: message to edit not found'')
   \<and> isRetryable (analyzeError \<lparr>message = ''Bad Request: message to edit not found''\<rparr>) = False
   \<and> maxRetries (analyzeError \<lparr>message = ''Bad Request: message to edit not found''\<rparr>) = 0
   \<and> strategy (analyzeError \<lparr>message = ''Bad Request: message to edit not found''\<rparr>)
       = RECREATE_MESSAGE
   \<and> \<not> rateLimitMarker (toLowerCase ''ETELEGRAM: something odd'')
   \<and> \<not> staleTargetMarker (toLowerCase ''ETELEGRAM: something odd'')
   \<and> \<not> deletedTargetMarker (toLowerCase ''ETELEGRAM: something odd'')
   \<and> \<not> otherMarker (toLowerCase ''ETELEGRAM: something odd'')
   \<and> analyzeError \<lparr>message = ''ETELEGRAM: something odd''\<rparr> =
     \<lparr>type = UNKNOWN, isRetryable = True, maxRetries = 2, strategy = RETRY,
      backoffMultiplier = 1.5, gracefulDegradation = None\<rparr>"
proof -
  have a: "includesStr (toLowerCase ''Too Many Requests: retry after 5'') ''too many requests''"
    by (simp add: toLowerCase_def toLowerChar_def)
  have b: "staleTargetMarker (toLowerCase ''Bad Request: message to edit not found'')"
    by (simp add: toLowerCase_def toLowerChar_def staleTargetMarker_def)
  have c: "\<not> rateLimitMarker (toLowerCase ''Bad Request: message to edit not found'')"
    by (simp add: toLowerCase_def toLowerChar_def rateLimitMarker_def)
  have d: "\<not> rateLimitMarker (toLowerCase ''ETELEGRAM: something odd'')"
    "\<not> staleTargetMarker (toLowerCase ''ETELEGRAM: something odd'')"
    "\<not> deletedTargetMarker (toLowerCase ''ETELEGRAM: something odd'')"
    "\<not> otherMarker (toLowerCase ''ETELEGRAM: something odd'')"
    by (simp_all add: toLowerCase_def toLowerChar_def rateLimitMarker_def
        staleTargetMarker_def deletedTargetMarker_def otherMarker_def)
  show ?thesis
    using a b c d
      classifier_policy [of "\<lparr>message = ''Too Many Requests: retry after 5''\<rparr>"]
      classifier_policy [of "\<lparr>message = ''Bad Request: message to edit not found''\<rparr>"]
      classifier_policy [of "\<lparr>message = ''ETELEGRAM: something odd''\<rparr>"]
    by simp
qed

text \<open>
  C5 as it is stated fails for a failure that indicates a deleted or expired edit target
  and whose message also carries a rate-limit marker: the rate-limit test comes first. The
  message below names a message id containing "429"; it is classified rate-limited,
  retryable with 5 retries and strategy retry.
\<close>

theorem classifier_policy_counterexample:
  "staleTargetMarker (toLowerCase ''Bad Request: message to edit not found (message_id 4291)'')
   \<and> \<not> (isRetryable (analyzeError
             \<lparr>message = ''Bad Request: message to edit not found (message_id 4291)''\<rparr>) = False
        \<and> maxRetries (analyzeError
             \<lparr>message = ''Bad Request: message to edit not found (message_id 4291)''\<rparr>) = 0
        \<and> strategy (analyzeError
             \<lparr>message = ''Bad Request: message to edit not found (message_id 4291)''\<rparr>)
            = RECREATE_MESSAGE)"
  by (simp add: analyzeError_def toLowerCase_def toLowerChar_def staleTargetMarker_def)

subsection \<open>Maps as association lists\<close>

lemma set_mapSet: "set (mapSet k v al) \<subseteq> insert (k, v) (set al)"
  by (induction al) auto

lemma set_mapDelete: "set (mapDelete k al) \<subseteq> set al"
  by (auto simp: mapDelete_def)

lemma map_of_mapSet: "map_of (mapSet k v al) = (map_of al)(k \<mapsto> v)"
  by (induction al) (auto simp: fun_eq_iff)

lemma map_of_mapDelete: "map_of (mapDelete k al) = (map_of al)(k := None)"
  unfolding mapDelete_def by (induction al) (auto simp: fun_eq_iff)

lemma keys_mapSet:
  "map fst (mapSet k v al) = (if k \<in> set (map fst al) then map fst al else map fst al @ [k])"
  by (induction al) auto

lemma distinct_mapSet: "distinct (map fst al) \<Longrightarrow> distinct (map fst (mapSet k v al))"
  by (simp add: keys_mapSet)

lemma distinct_mapDelete: "distinct (map fst al) \<Longrightarrow> distinct (map fst (mapDelete k al))"
  by (simp add: mapDelete_def distinct_map_filter)

lemma map_of_filter_kept:
  assumes "map_of al k = Some v" and "P (k, v)"
  shows "map_of (filter P al) k = Some v"
  using assms by (induction al) (auto split: if_splits)

lemma map_of_filter_dropped:
  assumes "distinct (map fst al)" and "map_of al k = Some v" and "\<not> P (k, v)"
  shows "map_of (filter P al) k = None"
proof -
  have "(k, w) \<in> set al \<Longrightarrow> w = v" for w
    using assms(1,2) by (metis map_of_is_SomeI option.inject)
  then have "k \<notin> fst ` set (filter P al)"
    using assms(3) by auto
  then show ?thesis
    by (simp add: map_of_eq_None_iff)
qed

subsection \<open>What each operation does to the maps\<close>

lemma updateActiveSessionsCount_fields [simp]:
  "sessions (updateActiveSessionsCount m) = sessions m"
  "contexts (updateActiveSessionsCount m) = contexts m"
  "userSessions (updateActiveSessionsCount m) = userSessions m"
  "cleanupConfig (updateActiveSessionsCount m) = cleanupConfig m"
  by (simp_all add: updateActiveSessionsCount_def)

lemma updateErrorRate_fields [simp]:
  "sessions (updateErrorRate m) = sessions m"
  "contexts (updateErrorRate m) = contexts m"
  "userSessions (updateErrorRate m) = userSessions m"
  "cleanupConfig (updateErrorRate m) = cleanupConfig m"
  by (simp_all add: updateErrorRate_def Let_def)

lemma updateSessionMetrics_fields [simp]:
  "sessions (updateSessionMetrics s now m) = sessions m"
  "contexts (updateSessionMetrics s now m) = contexts m"
  "userSessions (updateSessionMetrics s now m) = userSessions m"
  "cleanupConfig (updateSessionMetrics s now m) = cleanupConfig m"
  by (simp_all add: updateSessionMetrics_def Let_def)

lemma ensureAutoCleanup_fields [simp]:
  "sessions (ensureAutoCleanup m) = sessions m"
  "contexts (ensureAutoCleanup m) = contexts m"
  "userSessions (ensureAutoCleanup m) = userSessions m"
  "cleanupConfig (ensureAutoCleanup m) = cleanupConfig m"
  by (simp_all add: ensureAutoCleanup_def)

lemma touchSession_fields [simp]:
  "contexts (touchSession sid now m) = contexts m"
  "cleanupConfig (touchSession sid now m) = cleanupConfig m"
  by (simp_all add: touchSession_def split: option.splits)

lemma touchSession_sessions:
  "sessions (touchSession sid now m) = sessions m
   \<or> (\<exists>s. sessions (touchSession sid now m) = mapSet sid s (sessions m))"
  by (auto simp: touchSession_def split: option.splits)

lemma cleanupSession_None:
  "map_of (sessions m) sid = None \<Longrightarrow> cleanupSession sid m = (False, m)"
  by (simp add: cleanupSession_def)

lemma cleanupSession_Some:
  assumes "map_of (sessions m) sid = Some s"
  shows "fst (cleanupSession sid m) = True"
    and "sessions (snd (cleanupSession sid m)) = mapDelete sid (sessions m)"
    and "contexts (snd (cleanupSession sid m)) = mapDelete sid (contexts m)"
    and "cleanupConfig (snd (cleanupSession sid m)) = cleanupConfig m"
  using assms by (simp_all add: cleanupSession_def Let_def)

lemma cleanupSession_shrinks:
  "set (contexts (snd (cleanupSession sid m))) \<subseteq> set (contexts m)"
  "cleanupConfig (snd (cleanupSession sid m)) = cleanupConfig m"
  "distinct (map fst (sessions m)) \<Longrightarrow> distinct (map fst (sessions (snd (cleanupSession sid m))))"
proof -
  show "set (contexts (snd (cleanupSession sid m))) \<subseteq> set (contexts m)"
    using set_mapDelete [of sid "contexts m"]
    by (cases "map_of (sessions m) sid") (simp_all add: cleanupSession_None cleanupSession_Some)
  show "cleanupConfig (snd (cleanupSession sid m)) = cleanupConfig m"
    by (cases "map_of (sessions m) sid") (simp_all add: cleanupSession_None cleanupSession_Some)
  show "distinct (map fst (sessions m))
      \<Longrightarrow> distinct (map fst (sessions (snd (cleanupSession sid m))))"
    by (cases "map_of (sessions m) sid")
       (simp_all add: cleanupSession_None cleanupSession_Some distinct_mapDelete)
qed

lemma enforceUserSessionLimits_shrinks:
  "set (contexts (enforceUserSessionLimits user m)) \<subseteq> set (contexts m)"
  "cleanupConfig (enforceUserSessionLimits user m) = cleanupConfig m"
  "distinct (map fst (sessions m))
     \<Longrightarrow> distinct (map fst (sessions (enforceUserSessionLimits user m)))"
  using cleanupSession_shrinks
  by (auto simp: enforceUserSessionLimits_def Let_def split: option.splits)

subsection \<open>Invariants of the manager\<close>

lemma sweep_shrinks:
  "set (contexts (snd (fold (sweepEntry now) xs acc))) \<subseteq> set (contexts (snd acc))
   \<and> cleanupConfig (snd (fold (sweepEntry now) xs acc)) = cleanupConfig (snd acc)
   \<and> (distinct (map fst (sessions (snd acc)))
        \<longrightarrow> distinct (map fst (sessions (snd (fold (sweepEntry now) xs acc)))))"
proof (induction xs arbitrary: acc)
  case Nil
  then show ?case by simp
next
  case (Cons x xs)
  have "set (contexts (snd (sweepEntry now x acc))) \<subseteq> set (contexts (snd acc))"
    and "cleanupConfig (snd (sweepEntry now x acc)) = cleanupConfig (snd acc)"
    and "distinct (map fst (sessions (snd acc)))
        \<longrightarrow> distinct (map fst (sessions (snd (sweepEntry now x acc))))"
    using cleanupSession_shrinks [where sid = "fst x" and m = "snd acc"]
    by (simp_all add: sweepEntry_def)
  then show ?case
    using Cons.IH [of "sweepEntry now x acc"] by auto
qed

lemma gapless_fresh:
  "gaplessVersions \<lparr>sessionIdC = sid, messageVersions = [], currentVersion = 0,
     totalChunks = 0, processedChunks = 0, errorCount = 0, retryCountC = 0,
     lastCheckpoint = now, contextData = []\<rparr>"
  by (simp add: gaplessVersions_def)

lemma gapless_append:
  assumes "gaplessVersions context" and "version v = currentVersion context + 1"
  shows "gaplessVersions (context\<lparr>messageVersions := messageVersions context @ [v],
                                 currentVersion := version v\<rparr>)"
  using assms by (simp add: gaplessVersions_def)

lemma gapless_unchanged:
  assumes "gaplessVersions context"
    and "messageVersions context' = messageVersions context"
    and "currentVersion context' = currentVersion context"
  shows "gaplessVersions context'"
  using assms by (simp add: gaplessVersions_def)

lemma invariant_contexts_update:
  assumes "managerInvariant cfg m" and "gaplessVersions context'"
    and "cleanupConfig after = cleanupConfig m"
    and "contexts after = mapSet sid context' (contexts m)"
    and "sessions after = sessions m \<or> (\<exists>s. sessions after = mapSet sid2 s (sessions m))"
  shows "managerInvariant cfg after"
proof -
  have "set (contexts after) \<subseteq> insert (sid, context') (set (contexts m))"
    using assms(4) set_mapSet [of sid context' "contexts m"] by simp
  then have "\<forall>entry \<in> set (contexts after). gaplessVersions (snd entry)"
    using assms(1,2) by (auto simp: managerInvariant_def)
  moreover have "distinct (map fst (sessions after))"
    using assms(1,5) by (auto simp: managerInvariant_def distinct_mapSet)
  ultimately show ?thesis
    using assms(1,3) by (simp add: managerInvariant_def)
qed

lemma invariant_contexts_shrink:
  assumes "managerInvariant cfg m"
    and "cleanupConfig after = cleanupConfig m"
    and "set (contexts after) \<subseteq> set (contexts m)"
    and "distinct (map fst (sessions after))"
  shows "managerInvariant cfg after"
  using assms by (auto simp: managerInvariant_def)

lemma context_in_invariant:
  assumes "managerInvariant cfg m" and "map_of (contexts m) sid = Some context"
  shows "gaplessVersions context"
proof -
  have "(sid, context) \<in> set (contexts m)"
    using assms(2) by (rule map_of_SomeD)
  then have "gaplessVersions (snd (sid, context))"
    using assms(1) unfolding managerInvariant_def by blast
  then show ?thesis
    by simp
qed

lemma createSession_invariant:
  assumes "managerInvariant cfg m"
  shows "managerInvariant cfg (snd (createSession chat user meta now random m))"
proof -
  let ?m1 = "ensureAutoCleanup m"
  let ?m2 = "enforceUserSessionLimits user ?m1"
  have m1: "managerInvariant cfg ?m1"
    using assms by (simp add: managerInvariant_def)
  have m2: "managerInvariant cfg ?m2"
    using m1 enforceUserSessionLimits_shrinks [where user = user and m = ?m1]
    by (intro invariant_contexts_shrink [OF m1]) (simp_all add: managerInvariant_def)
  let ?sid = "generateSessionId chat user now random"
  let ?m' = "snd (createSession chat user meta now random m)"
  have a: "contexts ?m' = mapSet ?sid
      \<lparr>sessionIdC = ?sid, messageVersions = [], currentVersion = 0,
       totalChunks = 0, processedChunks = 0, errorCount = 0, retryCountC = 0,
       lastCheckpoint = now, contextData = []\<rparr> (contexts ?m2)"
    and b: "cleanupConfig ?m' = cleanupConfig ?m2"
    by (simp_all add: createSession_def Let_def)
  have c: "sessions ?m' = sessions ?m2 \<or> (\<exists>s. sessions ?m' = mapSet ?sid s (sessions ?m2))"
    by (simp add: createSession_def Let_def) blast
  show ?thesis
    by (rule invariant_contexts_update [OF m2 gapless_fresh b a c])
qed

lemma session_update_cases:
  assumes "after = (case map_of (sessions m) sid of
                      None \<Rightarrow> m
                    | Some session \<Rightarrow> m\<lparr>sessions := mapSet sid (f session) (sessions m)\<rparr>)"
  shows "sessions after = sessions m \<or> (\<exists>s. sessions after = mapSet sid s (sessions m))"
    and "contexts after = contexts m" and "cleanupConfig after = cleanupConfig m"
  unfolding assms by (cases "map_of (sessions m) sid"; simp; blast)+

lemma addMessageVersion_invariant:
  assumes "managerInvariant cfg m"
  shows "managerInvariant cfg (snd (addMessageVersion sid text' sent telegramId now m))"
proof (cases "map_of (contexts m) sid")
  case None
  then show ?thesis
    using assms by (simp add: addMessageVersion_def)
next
  case (Some ctx)
  let ?v = "\<lparr>version = currentVersion ctx + 1, content = text', timestampMV = now,
              byteLength = length text', wordCount = countWords text',
              sentToTelegram = sent, telegramMessageId = telegramId,
              checksum = generateChecksum text'\<rparr>"
  let ?c = "ctx\<lparr>messageVersions := messageVersions ctx @ [?v],
                 currentVersion := version ?v\<rparr>"
  let ?m1 = "m\<lparr>contexts := mapSet sid ?c (contexts m)\<rparr>"
  let ?f = "\<lambda>session. if telegramId \<noteq> None \<and> telegramId \<noteq> Some 0
                        then session\<lparr>lastActivity := now, messageId := telegramId\<rparr>
                        else session\<lparr>lastActivity := now\<rparr>"
  let ?m2 = "case map_of (sessions ?m1) sid of
               None \<Rightarrow> ?m1
             | Some session \<Rightarrow> ?m1\<lparr>sessions := mapSet sid (?f session) (sessions ?m1)\<rparr>"
  let ?m' = "snd (addMessageVersion sid text' sent telegramId now m)"
  have g: "gaplessVersions ?c"
    by (rule gapless_append [OF context_in_invariant [OF assms Some]]) simp
  have m': "?m' = ?m2\<lparr>metrics := (metrics ?m2)
                       \<lparr>totalMessages := totalMessages (metrics ?m2) + 1\<rparr>\<rparr>"
    using Some by (simp add: addMessageVersion_def Let_def split: option.split)
  have a: "contexts ?m' = mapSet sid ?c (contexts m)"
    and b: "cleanupConfig ?m' = cleanupConfig m"
    and c: "sessions ?m' = sessions m \<or> (\<exists>s. sessions ?m' = mapSet sid s (sessions m))"
    unfolding m' using session_update_cases [OF refl, of ?m1 sid ?f] by simp_all
  show ?thesis
    by (rule invariant_contexts_update [OF assms g b a c])
qed

lemma recordChunk_invariant:
  assumes "managerInvariant cfg m"
  shows "managerInvariant cfg (snd (recordChunk sid now m))"
proof (cases "map_of (contexts m) sid")
  case None
  then show ?thesis
    using assms by (simp add: recordChunk_def)
next
  case (Some ctx)
  let ?c = "ctx\<lparr>totalChunks := totalChunks ctx + 1,
                 processedChunks := processedChunks ctx + 1,
                 lastCheckpoint := now\<rparr>"
  let ?m1 = "m\<lparr>contexts := mapSet sid ?c (contexts m)\<rparr>"
  let ?m2 = "touchSession sid now ?m1"
  let ?m' = "snd (recordChunk sid now m)"
  have g: "gaplessVersions ?c"
    by (rule gapless_unchanged [OF context_in_invariant [OF assms Some]]) simp_all
  have m': "?m' = ?m2\<lparr>metrics := (metrics ?m2)\<lparr>totalChunksM := totalChunksM (metrics ?m2) + 1\<rparr>\<rparr>"
    using Some by (simp add: recordChunk_def Let_def)
  have a: "contexts ?m' = mapSet sid ?c (contexts m)"
    and b: "cleanupConfig ?m' = cleanupConfig m"
    unfolding m' by simp_all
  have c: "sessions ?m' = sessions m \<or> (\<exists>s. sessions ?m' = mapSet sid s (sessions m))"
  proof (cases "map_of (sessions m) sid")
    case None
    then have "sessions ?m' = sessions m"
      unfolding m' by (simp add: touchSession_def)
    then show ?thesis
      by blast
  next
    case (Some s)
    then have "sessions ?m' = mapSet sid (s\<lparr>lastActivity := now\<rparr>) (sessions m)"
      unfolding m' by (simp add: touchSession_def)
    then show ?thesis
      by blast
  qed
  show ?thesis
    by (rule invariant_contexts_update [OF assms g b a c])
qed

lemma recordError_invariant:
  assumes "managerInvariant cfg m"
  shows "managerInvariant cfg (snd (recordError sid error now m))"
proof (cases "map_of (contexts m) sid")
  case None
  then show ?thesis
    using assms by (simp add: recordError_def)
next
  case (Some ctx)
  let ?c = "ctx\<lparr>errorCount := errorCount ctx + 1\<rparr>"
  let ?m1 = "m\<lparr>contexts := mapSet sid ?c (contexts m)\<rparr>"
  let ?f = "\<lambda>session. if errorCount ?c > 3
                        then session\<lparr>lastActivity := now, status := ERROR\<rparr>
                        else session\<lparr>lastActivity := now\<rparr>"
  let ?m2 = "case map_of (sessions ?m1) sid of
               None \<Rightarrow> ?m1
             | Some session \<Rightarrow> ?m1\<lparr>sessions := mapSet sid (?f session) (sessions ?m1)\<rparr>"
  let ?m' = "snd (recordError sid error now m)"
  have g: "gaplessVersions ?c"
    by (rule gapless_unchanged [OF context_in_invariant [OF assms Some]]) simp_all
  have m': "?m' = updateErrorRate ?m2"
    using Some by (simp add: recordError_def Let_def split: option.split)
  have a: "contexts ?m' = mapSet sid ?c (contexts m)"
    and b: "cleanupConfig ?m' = cleanupConfig m"
    and c: "sessions ?m' = sessions m \<or> (\<exists>s. sessions ?m' = mapSet sid s (sessions m))"
    unfolding m' using session_update_cases [OF refl, of ?m1 sid ?f] by simp_all
  show ?thesis
    by (rule invariant_contexts_update [OF assms g b a c])
qed

lemma recordRetry_invariant:
  assumes "managerInvariant cfg m"
  shows "managerInvariant cfg (snd (recordRetry sid now m))"
proof (cases "map_of (contexts m) sid")
  case None
  then show ?thesis
    using assms by (simp add: recordRetry_def)
next
  case (Some ctx)
  let ?c = "ctx\<lparr>retryCountC := retryCountC ctx + 1\<rparr>"
  let ?m1 = "m\<lparr>contexts := mapSet sid ?c (contexts m)\<rparr>"
  let ?m' = "snd (recordRetry sid now m)"
  have g: "gaplessVersions ?c"
    by (rule gapless_unchanged [OF context_in_invariant [OF assms Some]]) simp_all
  have m': "?m' = touchSession sid now ?m1"
    using Some by (simp add: recordRetry_def)
  have a: "contexts ?m' = mapSet sid ?c (contexts m)"
    and b: "cleanupConfig ?m' = cleanupConfig m"
    unfolding m' by simp_all
  have c: "sessions ?m' = sessions m \<or> (\<exists>s. sessions ?m' = mapSet sid s (sessions m))"
  proof (cases "map_of (sessions m) sid")
    case None
    then have "sessions ?m' = sessions m"
      unfolding m' by (simp add: touchSession_def)
    then show ?thesis
      by blast
  next
    case (Some s)
    then have "sessions ?m' = mapSet sid (s\<lparr>lastActivity := now\<rparr>) (sessions m)"
      unfolding m' by (simp add: touchSession_def)
    then show ?thesis
      by blast
  qed
  show ?thesis
    by (rule invariant_contexts_update [OF assms g b a c])
qed

lemma setContextData_invariant:
  assumes "managerInvariant cfg m"
  shows "managerInvariant cfg (snd (setContextData sid key val m))"
proof (cases "map_of (contexts m) sid")
  case None
  then show ?thesis
    using assms by (simp add: setContextData_def)
next
  case (Some ctx)
  let ?c = "ctx\<lparr>contextData := mapSet key val (contextData ctx)\<rparr>"
  let ?m' = "snd (setContextData sid key val m)"
  have g: "gaplessVersions ?c"
    by (rule gapless_unchanged [OF context_in_invariant [OF assms Some]]) simp_all
  have a: "contexts ?m' = mapSet sid ?c (contexts m)"
    and b: "cleanupConfig ?m' = cleanupConfig m"
    and c: "sessions ?m' = sessions m \<or> (\<exists>s. sessions ?m' = mapSet sid s (sessions m))"
    using Some by (simp_all add: setContextData_def)
  show ?thesis
    by (rule invariant_contexts_update [OF assms g b a c])
qed

lemma updateSessionStatus_invariant:
  assumes "managerInvariant cfg m"
  shows "managerInvariant cfg (snd (updateSessionStatus sid st now m))"
proof (cases "map_of (sessions m) sid")
  case None
  then show ?thesis
    using assms by (simp add: updateSessionStatus_def)
next
  case (Some session)
  let ?m' = "snd (updateSessionStatus sid st now m)"
  have "contexts ?m' = contexts m" and "cleanupConfig ?m' = cleanupConfig m"
    and "sessions ?m' = mapSet sid (session\<lparr>status := st, lastActivity := now\<rparr>) (sessions m)"
    using Some by (simp_all add: updateSessionStatus_def Let_def)
  then show ?thesis
    using assms by (simp add: managerInvariant_def distinct_mapSet)
qed

lemma applyManagerCall_invariant:
  assumes "managerInvariant cfg m"
  shows "managerInvariant cfg (applyManagerCall c m)"
proof -
  obtain now k where c: "c = (now, k)"
    by (cases c)
  have d: "distinct (map fst (sessions m))"
    using assms by (simp add: managerInvariant_def)
  show ?thesis
  proof (cases k)
    case (CleanupSession sid)
    have "managerInvariant cfg (snd (cleanupSession sid m))"
      using cleanupSession_shrinks [where sid = sid and m = m] d
      by (intro invariant_contexts_shrink [OF assms]) simp_all
    then show ?thesis
      using c CleanupSession by simp
  next
    case PerformCleanup
    have "managerInvariant cfg (snd (fold (sweepEntry now) (sessions m) (0, m)))"
      using sweep_shrinks [of now "sessions m" "(0, m)"] d
      by (intro invariant_contexts_shrink [OF assms]) simp_all
    then show ?thesis
      using c PerformCleanup by (simp add: performCleanup_def)
  qed (use c assms in \<open>simp_all add: createSession_invariant updateSessionStatus_invariant
        addMessageVersion_invariant recordChunk_invariant recordError_invariant
        recordRetry_invariant setContextData_invariant\<close>)
qed

lemma runManager_invariant:
  "managerInvariant cfg (runManager calls (newStreamStateManager cfg))"
proof -
  have "managerInvariant cfg m \<Longrightarrow> managerInvariant cfg (fold applyManagerCall calls m)" for m
    by (induction calls arbitrary: m) (simp_all add: applyManagerCall_invariant)
  moreover have "managerInvariant cfg (newStreamStateManager cfg)"
    by (simp add: managerInvariant_def newStreamStateManager_def)
  ultimately show ?thesis
    by (simp add: runManager_def)
qed

subsection \<open>Properties of the backoff strategy\<close>

lemma getErrorMultiplier_pos: "0 < getErrorMultiplier e"
  by (simp add: getErrorMultiplier_def Let_def)

lemma errorMultiplier_pos: "0 < errorMultiplier error"
  by (cases error) (simp_all add: errorMultiplier_def getErrorMultiplier_pos)

lemma jitterOf_range:
  assumes "0 \<le> rnd" and "rnd < 1"
  shows "0.85 \<le> jitterOf rnd \<and> jitterOf rnd \<le> 1.15"
  using assms by (simp add: jitterOf_def)

lemma calculateDelay_mono:
  assumes "0 \<le> rnd" and "0 \<le> baseBackoffDelay (configBS bs)" and "k \<le> k'"
  shows "calculateDelay error rnd (bs\<lparr>consecutiveFailures := k\<rparr>)
       \<le> calculateDelay error rnd (bs\<lparr>consecutiveFailures := k'\<rparr>)"
proof -
  let ?b = "baseBackoffDelay (configBS bs)" and ?m = "maxBackoffDelay (configBS bs)"
  have "(2::real) ^ k \<le> 2 ^ k'"
    using assms(3) by (simp add: power_increasing)
  then have "?b * 2 ^ k \<le> ?b * 2 ^ k'"
    using assms(2) by (rule mult_left_mono)
  then have "min (?b * 2 ^ k) ?m \<le> min (?b * 2 ^ k') ?m"
    by (simp add: min_le_iff_disj)
  moreover have "0 \<le> errorMultiplier error * jitterOf rnd"
    using errorMultiplier_pos [of error] assms(1) by (simp add: jitterOf_def)
  ultimately have
    "min (?b * 2 ^ k) ?m * (errorMultiplier error * jitterOf rnd)
       \<le> min (?b * 2 ^ k') ?m * (errorMultiplier error * jitterOf rnd)"
    by (rule mult_right_mono)
  then show ?thesis
    by (simp add: calculateDelay_def Let_def mult.assoc floor_mono)
qed

lemma calculateDelay_capped:
  assumes "0 \<le> rnd"
  shows "calculateDelay error rnd bs
       \<le> \<lfloor>maxBackoffDelay (configBS bs) * errorMultiplier error * jitterOf rnd\<rfloor>"
proof -
  let ?b = "baseBackoffDelay (configBS bs)" and ?m = "maxBackoffDelay (configBS bs)"
  have "0 \<le> errorMultiplier error * jitterOf rnd"
    using errorMultiplier_pos [of error] assms by (simp add: jitterOf_def)
  then have "min (?b * 2 ^ consecutiveFailures bs) ?m * (errorMultiplier error * jitterOf rnd)
       \<le> ?m * (errorMultiplier error * jitterOf rnd)"
    by (intro mult_right_mono) simp_all
  then show ?thesis
    by (simp add: calculateDelay_def Let_def mult.assoc floor_mono)
qed

text \<open>
  C8 (as amended). With \<open>Math.random()\<close> drawn from \<open>[0, 1)\<close>, the backoff delay is the
  floor of \<open>min(maxDelay, baseDelay * 2^consecutiveFailures) * multiplier * jitter\<close>, where
  the multiplier is the one the strategy gives the error and the jitter factor lies in
  \<open>[0.85, 1.15]\<close>. For a base delay \<open>\<ge> 0\<close> and fixed error and jitter the delay is
  non-decreasing in \<open>consecutiveFailures\<close>, and it never exceeds the floor of
  \<open>maxDelay * multiplier * jitter\<close>. \<open>recordSuccess()\<close> sets the streak to zero, so that the
  next delay is the one computed from the base value,
  \<open>floor(min(maxDelay, baseDelay) * multiplier * jitter)\<close>.
\<close>

theorem backoff_delay:
  assumes "0 \<le> rnd" and "rnd < 1"
  shows "calculateDelay error rnd bs =
           \<lfloor>min (maxBackoffDelay (configBS bs))
                (baseBackoffDelay (configBS bs) * 2 ^ consecutiveFailures bs)
             * errorMultiplier error * jitterOf rnd\<rfloor>
       \<and> 0.85 \<le> jitterOf rnd \<and> jitterOf rnd \<le> 1.15
       \<and> (0 \<le> baseBackoffDelay (configBS bs) \<and> k \<le> k' \<longrightarrow>
            calculateDelay error rnd (bs\<lparr>consecutiveFailures := k\<rparr>)
              \<le> calculateDelay error rnd (bs\<lparr>consecutiveFailures := k'\<rparr>))
       \<and> calculateDelay error rnd bs
            \<le> \<lfloor>maxBackoffDelay (configBS bs) * errorMultiplier error * jitterOf rnd\<rfloor>
       \<and> consecutiveFailures (recordSuccess bs) = 0
       \<and> calculateDelay error rnd (recordSuccess bs) =
           \<lfloor>min (maxBackoffDelay (configBS bs)) (baseBackoffDelay (configBS bs))
             * errorMultiplier error * jitterOf rnd\<rfloor>"
proof -
  have "calculateDelay error rnd bs =
           \<lfloor>min (maxBackoffDelay (configBS bs))
                (baseBackoffDelay (configBS bs) * 2 ^ consecutiveFailures bs)
             * errorMultiplier error * jitterOf rnd\<rfloor>"
    by (simp add: calculateDelay_def Let_def min.commute)
  moreover have "calculateDelay error rnd (recordSuccess bs) =
           \<lfloor>min (maxBackoffDelay (configBS bs)) (baseBackoffDelay (configBS bs))
             * errorMultiplier error * jitterOf rnd\<rfloor>"
    by (simp add: calculateDelay_def recordSuccess_def Let_def min.commute)
  moreover have "consecutiveFailures (recordSuccess bs) = 0"
    by (simp add: recordSuccess_def)
  ultimately show ?thesis
    using jitterOf_range [OF assms] calculateDelay_mono [OF assms(1), of bs k k' error]
      calculateDelay_capped [OF assms(1), of error bs]
    by blast
qed

theorem backoff_delay_witness:
  "(0::real) \<le> 0.5 \<and> (0.5::real) < 1
   \<and> calculateDelay (Some \<lparr>message = ''Rate limit hit''\<rparr>) 0.5
        ((newBackoffStrategy telegramDefaults)\<lparr>consecutiveFailures := 3\<rparr>) = 16000
   \<and> 0 \<le> baseBackoffDelay telegramDefaults \<and> (1::nat) \<le> 2
   \<and> calculateDelay (Some \<lparr>message = ''Rate limit hit''\<rparr>) 0.5
        ((newBackoffStrategy telegramDefaults)\<lparr>consecutiveFailures := 1\<rparr>)
      \<le> calculateDelay (Some \<lparr>message = ''Rate limit hit''\<rparr>) 0.5
        ((newBackoffStrategy telegramDefaults)\<lparr>consecutiveFailures := 2\<rparr>)
   \<and> calculateDelay (Some \<lparr>message = ''Rate limit hit''\<rparr>) 0.5
        (recordSuccess ((newBackoffStrategy telegramDefaults)\<lparr>consecutiveFailures := 3\<rparr>))
      = 2000"
proof -
  have m: "errorMultiplier (Some \<lparr>message = ''Rate limit hit''\<rparr>) = 2"
    by (simp add: errorMultiplier_def getErrorMultiplier_def toLowerCase_def toLowerChar_def)
  show ?thesis
    using backoff_delay [where rnd = "0.5" and error = "Some \<lparr>message = ''Rate limit hit''\<rparr>"
        and bs = "(newBackoffStrategy telegramDefaults)\<lparr>consecutiveFailures := 3\<rparr>"
        and k = 1 and k' = 2] m
    by (simp add: newBackoffStrategy_def telegramDefaults_def jitterOf_def)
qed

text \<open>
  C8 as it is stated fails: the delay is rounded down to whole milliseconds (base 1000,
  no failures, no error, random draw 0.001: the product is 850.3, the delay 850), and with
  a negative base delay the delay decreases as failures accumulate.
\<close>

theorem backoff_delay_counterexample:
  "real_of_int (calculateDelay None 0.001 (newBackoffStrategy telegramDefaults))
     \<noteq> min (maxBackoffDelay telegramDefaults)
           (baseBackoffDelay telegramDefaults * 2 ^ 0)
         * errorMultiplier None * jitterOf 0.001
   \<and> \<not> calculateDelay None 0.5
          ((newBackoffStrategy (telegramDefaults\<lparr>baseBackoffDelay := - 1000\<rparr>))
             \<lparr>consecutiveFailures := 0\<rparr>)
        \<le> calculateDelay None 0.5
          ((newBackoffStrategy (telegramDefaults\<lparr>baseBackoffDelay := - 1000\<rparr>))
             \<lparr>consecutiveFailures := 1\<rparr>)"
  by (simp add: calculateDelay_def newBackoffStrategy_def telegramDefaults_def
      errorMultiplier_def jitterOf_def Let_def)

subsection \<open>Recording an error\<close>

text \<open>
  C10. For a session that exists (with its context), \<open>recordError\<close> succeeds, increments
  the context's error count and sets the session's last-activity time to the current time;
  it sets the session's status to the error status when the incremented count exceeds 3,
  and leaves the status as it was when the incremented count is 3 or less.
\<close>

theorem record_error_threshold:
  assumes "getSession sid m = Some session" and "getContext sid m = Some ctx"
  shows "fst (recordError sid error now m) = True
     \<and> getContext sid (snd (recordError sid error now m))
         = Some (ctx\<lparr>errorCount := errorCount ctx + 1\<rparr>)
     \<and> (errorCount ctx + 1 > 3 \<longrightarrow>
          getSession sid (snd (recordError sid error now m))
            = Some (session\<lparr>lastActivity := now, status := ERROR\<rparr>))
     \<and> (errorCount ctx + 1 \<le> 3 \<longrightarrow>
          getSession sid (snd (recordError sid error now m))
            = Some (session\<lparr>lastActivity := now\<rparr>))"
proof -
  let ?c = "ctx\<lparr>errorCount := errorCount ctx + 1\<rparr>"
  let ?s = "if errorCount ?c > 3 then session\<lparr>lastActivity := now, status := ERROR\<rparr>
            else session\<lparr>lastActivity := now\<rparr>"
  have "recordError sid error now m =
      (True, updateErrorRate (m\<lparr>contexts := mapSet sid ?c (contexts m),
                                 sessions := mapSet sid ?s (sessions m)\<rparr>))"
    using assms by (simp add: recordError_def getSession_def getContext_def Let_def)
  then show ?thesis
    by (simp add: getSession_def getContext_def map_of_mapSet)
qed

theorem record_error_threshold_witness:
  "getSession ''stream_7_42_1000_abc''
     (runManager [(1000, CreateSession 7 42 [] ''abc''),
                  (1001, RecordError ''stream_7_42_1000_abc'' \<lparr>message = ''timeout''\<rparr>),
                  (1002, RecordError ''stream_7_42_1000_abc'' \<lparr>message = ''timeout''\<rparr>),
                  (1003, RecordError ''stream_7_42_1000_abc'' \<lparr>message = ''timeout''\<rparr>)]
        (newStreamStateManager defaultCleanupConfig))
     = Some \<lparr>sessionId = ''stream_7_42_1000_abc'', chatId = 7, userId = 42, startTime = 1000,
             lastActivity = 1003, status = INITIALIZING, messageId = None, metadata = []\<rparr>
   \<and> getContext ''stream_7_42_1000_abc''
     (runManager [(1000, CreateSession 7 42 [] ''abc''),
                  (1001, RecordError ''stream_7_42_1000_abc'' \<lparr>message = ''timeout''\<rparr>),
                  (1002, RecordError ''stream_7_42_1000_abc'' \<lparr>message = ''timeout''\<rparr>),
                  (1003, RecordError ''stream_7_42_1000_abc'' \<lparr>message = ''timeout''\<rparr>)]
        (newStreamStateManager defaultCleanupConfig))
     = Some \<lparr>sessionIdC = ''stream_7_42_1000_abc'', messageVersions = [], currentVersion = 0,
             totalChunks = 0, processedChunks = 0, errorCount = 3, retryCountC = 0,
             lastCheckpoint = 1000, contextData = []\<rparr>
   \<and> getSession ''stream_7_42_1000_abc''
     (snd (recordError ''stream_7_42_1000_abc'' \<lparr>message = ''timeout''\<rparr> 1004
       (runManager [(1000, CreateSession 7 42 [] ''abc''),
                  (1001, RecordError ''stream_7_42_1000_abc'' \<lparr>message = ''timeout''\<rparr>),
                  (1002, RecordError ''stream_7_42_1000_abc'' \<lparr>message = ''timeout''\<rparr>),
                  (1003, RecordError ''stream_7_42_1000_abc'' \<lparr>message = ''timeout''\<rparr>)]
        (newStreamStateManager defaultCleanupConfig))))
     = Some \<lparr>sessionId = ''stream_7_42_1000_abc'', chatId = 7, userId = 42, startTime = 1000,
             lastActivity = 1004, status = ERROR, messageId = None, metadata = []\<rparr>"
proof -
  let ?m = "runManager [(1000, CreateSession 7 42 [] ''abc''),
                  (1001, RecordError ''stream_7_42_1000_abc'' \<lparr>message = ''timeout''\<rparr>),
                  (1002, RecordError ''stream_7_42_1000_abc'' \<lparr>message = ''timeout''\<rparr>),
                  (1003, RecordError ''stream_7_42_1000_abc'' \<lparr>message = ''timeout''\<rparr>)]
        (newStreamStateManager defaultCleanupConfig)"
  let ?s = "\<lparr>sessionId = ''stream_7_42_1000_abc'', chatId = 7, userId = 42, startTime = 1000,
             lastActivity = 1003, status = INITIALIZING, messageId = None, metadata = []\<rparr>"
  let ?c = "\<lparr>sessionIdC = ''stream_7_42_1000_abc'', messageVersions = [], currentVersion = 0,
             totalChunks = 0, processedChunks = 0, errorCount = 3, retryCountC = 0,
             lastCheckpoint = 1000, contextData = []\<rparr>"
  have sid: "generateSessionId 7 42 1000 ''abc'' = ''stream_7_42_1000_abc''"
    by (simp add: generateSessionId_def toStringRadix_def digitsOf.simps digitChar_def)
  have s: "getSession ''stream_7_42_1000_abc'' ?m = Some ?s"
    and c: "getContext ''stream_7_42_1000_abc'' ?m = Some ?c"
    by (simp_all add: runManager_def createSession_def recordError_def sid
        ensureAutoCleanup_def enforceUserSessionLimits_def newStreamStateManager_def
        defaultCleanupConfig_def getSession_def getContext_def Let_def)
  show ?thesis
    using record_error_threshold [OF s c, of "\<lparr>message = ''timeout''\<rparr>" 1004] s c
    by simp
qed

subsection \<open>Version numbers\<close>

text \<open>
  C4. In every state the manager reaches from its construction, the versions of every
  context are numbered 1, 2, 3, ... up to the context's current version, without gaps.
  A call of \<open>addMessageVersion\<close> for an existing context returns a version numbered one
  more than the current version, appends it behind the versions already recorded, which it
  leaves as they are, and makes its number the current version; for a missing context it
  returns nothing and changes nothing. \<open>recordError\<close> and \<open>recordRetry\<close> change only their
  counters, and a version appended to one context leaves every other context alone.
\<close>

theorem version_numbers_gapless:
  "(getContext sid (runManager calls (newStreamStateManager cfg)) = Some ctx \<longrightarrow>
       map version (messageVersions ctx) = [1 ..< Suc (currentVersion ctx)]
     \<and> length (messageVersions ctx) = currentVersion ctx)
   \<and> (getContext sid m = Some ctx \<longrightarrow>
       fst (addMessageVersion sid text' sent telegramId now m)
         = Some \<lparr>version = currentVersion ctx + 1, content = text', timestampMV = now,
                 byteLength = length text', wordCount = countWords text',
                 sentToTelegram = sent, telegramMessageId = telegramId,
                 checksum = generateChecksum text'\<rparr>
     \<and> getContext sid (snd (addMessageVersion sid text' sent telegramId now m))
         = Some (ctx\<lparr>messageVersions := messageVersions ctx @
                        [\<lparr>version = currentVersion ctx + 1, content = text', timestampMV = now,
                          byteLength = length text', wordCount = countWords text',
                          sentToTelegram = sent, telegramMessageId = telegramId,
                          checksum = generateChecksum text'\<rparr>],
                      currentVersion := currentVersion ctx + 1\<rparr>)
     \<and> getContext sid (snd (recordError sid error now m))
         = Some (ctx\<lparr>errorCount := errorCount ctx + 1\<rparr>)
     \<and> getContext sid (snd (recordRetry sid now m))
         = Some (ctx\<lparr>retryCountC := retryCountC ctx + 1\<rparr>))
   \<and> (getContext sid m = None \<longrightarrow>
       addMessageVersion sid text' sent telegramId now m = (None, m))
   \<and> (other \<noteq> sid \<longrightarrow>
       getContext sid (snd (addMessageVersion other text' sent telegramId now m))
         = getContext sid m)"
proof (intro conjI impI)
  assume "getContext sid (runManager calls (newStreamStateManager cfg)) = Some ctx"
  then have "gaplessVersions ctx"
    using context_in_invariant [OF runManager_invariant] by (simp add: getContext_def)
  then have g: "map version (messageVersions ctx) = [1 ..< Suc (currentVersion ctx)]"
    by (simp add: gaplessVersions_def)
  then show "map version (messageVersions ctx) = [1 ..< Suc (currentVersion ctx)]" .
  have "length (map version (messageVersions ctx)) = length [1 ..< Suc (currentVersion ctx)]"
    using g by simp
  then show "length (messageVersions ctx) = currentVersion ctx"
    by simp
next
  assume c: "getContext sid m = Some ctx"
  let ?v = "\<lparr>version = currentVersion ctx + 1, content = text', timestampMV = now,
              byteLength = length text', wordCount = countWords text',
              sentToTelegram = sent, telegramMessageId = telegramId,
              checksum = generateChecksum text'\<rparr>"
  show "fst (addMessageVersion sid text' sent telegramId now m) = Some ?v"
    using c by (simp add: addMessageVersion_def getContext_def Let_def)
  have "contexts (snd (addMessageVersion sid text' sent telegramId now m))
      = mapSet sid (ctx\<lparr>messageVersions := messageVersions ctx @ [?v],
                        currentVersion := currentVersion ctx + 1\<rparr>) (contexts m)"
    using c by (simp add: addMessageVersion_def getContext_def Let_def split: option.split)
  then show "getContext sid (snd (addMessageVersion sid text' sent telegramId now m))
         = Some (ctx\<lparr>messageVersions := messageVersions ctx @ [?v],
                      currentVersion := currentVersion ctx + 1\<rparr>)"
    by (simp add: getContext_def map_of_mapSet)
  have "contexts (snd (recordError sid error now m))
      = mapSet sid (ctx\<lparr>errorCount := errorCount ctx + 1\<rparr>) (contexts m)"
    using c by (simp add: recordError_def getContext_def Let_def split: option.split)
  then show "getContext sid (snd (recordError sid error now m))
         = Some (ctx\<lparr>errorCount := errorCount ctx + 1\<rparr>)"
    by (simp add: getContext_def map_of_mapSet)
  have "contexts (snd (recordRetry sid now m))
      = mapSet sid (ctx\<lparr>retryCountC := retryCountC ctx + 1\<rparr>) (contexts m)"
    using c by (simp add: recordRetry_def getContext_def)
  then show "getContext sid (snd (recordRetry sid now m))
         = Some (ctx\<lparr>retryCountC := retryCountC ctx + 1\<rparr>)"
    by (simp add: getContext_def map_of_mapSet)
next
  assume "getContext sid m = None"
  then show "addMessageVersion sid text' sent telegramId now m = (None, m)"
    by (simp add: addMessageVersion_def getContext_def)
next
  assume o: "other \<noteq> sid"
  show "getContext sid (snd (addMessageVersion other text' sent telegramId now m))
         = getContext sid m"
  proof (cases "map_of (contexts m) other")
    case None
    then show ?thesis
      by (simp add: addMessageVersion_def)
  next
    case (Some c)
    then have "\<exists>c'. contexts (snd (addMessageVersion other text' sent telegramId now m))
        = mapSet other c' (contexts m)"
      by (simp add: addMessageVersion_def Let_def split: option.split) blast
    then show ?thesis
      using o by (auto simp: getContext_def map_of_mapSet)
  qed
qed

theorem version_numbers_gapless_witness:
  "getContext ''stream_7_42_1000_abc''
     (runManager [(1000, CreateSession 7 42 [] ''abc''),
                  (1001, AddMessageVersion ''stream_7_42_1000_abc'' ''Hel'' True (Some 5)),
                  (1002, RecordError ''stream_7_42_1000_abc'' \<lparr>message = ''timeout''\<rparr>),
                  (1003, AddMessageVersion ''stream_7_42_1000_abc'' ''Hello'' True (Some 5)),
                  (1004, RecordRetry ''stream_7_42_1000_abc'')]
        (newStreamStateManager defaultCleanupConfig))
     = Some \<lparr>sessionIdC = ''stream_7_42_1000_abc'',
             messageVersions =
               [\<lparr>version = 1, content = ''Hel'', timestampMV = 1001, byteLength = 3,
                  wordCount = 1, sentToTelegram = True, telegramMessageId = Some 5,
                  checksum = ''11aef''\<rparr>,
                \<lparr>version = 2, content = ''Hello'', timestampMV = 1003, byteLength = 5,
                  wordCount = 1, sentToTelegram = True, telegramMessageId = Some 5,
                  checksum = ''42628b2''\<rparr>],
             currentVersion = 2, totalChunks = 0, processedChunks = 0, errorCount = 1,
             retryCountC = 1, lastCheckpoint = 1000, contextData = []\<rparr>
   \<and> map version
        [\<lparr>version = 1, content = ''Hel'', timestampMV = 1001, byteLength = 3,
           wordCount = 1, sentToTelegram = True, telegramMessageId = Some 5,
           checksum = ''11aef''\<rparr>,
         \<lparr>version = 2, content = ''Hello'', timestampMV = 1003, byteLength = 5,
           wordCount = 1, sentToTelegram = True, telegramMessageId = Some 5,
           checksum = ''42628b2''\<rparr>] = [1 ..< Suc 2]
   \<and> getContext ''nobody'' (newStreamStateManager defaultCleanupConfig) = None
   \<and> ''nobody'' \<noteq> ''stream_7_42_1000_abc''"
proof -
  let ?calls = "[(1000, CreateSession 7 42 [] ''abc''),
                  (1001, AddMessageVersion ''stream_7_42_1000_abc'' ''Hel'' True (Some 5)),
                  (1002, RecordError ''stream_7_42_1000_abc'' \<lparr>message = ''timeout''\<rparr>),
                  (1003, AddMessageVersion ''stream_7_42_1000_abc'' ''Hello'' True (Some 5)),
                  (1004, RecordRetry ''stream_7_42_1000_abc'')]"
  let ?c = "\<lparr>sessionIdC = ''stream_7_42_1000_abc'',
             messageVersions =
               [\<lparr>version = 1, content = ''Hel'', timestampMV = 1001, byteLength = 3,
                  wordCount = 1, sentToTelegram = True, telegramMessageId = Some 5,
                  checksum = ''11aef''\<rparr>,
                \<lparr>version = 2, content = ''Hello'', timestampMV = 1003, byteLength = 5,
                  wordCount = 1, sentToTelegram = True, telegramMessageId = Some 5,
                  checksum = ''42628b2''\<rparr>],
             currentVersion = 2, totalChunks = 0, processedChunks = 0, errorCount = 1,
             retryCountC = 1, lastCheckpoint = 1000, contextData = []\<rparr>"
  have sid: "generateSessionId 7 42 1000 ''abc'' = ''stream_7_42_1000_abc''"
    by (simp add: generateSessionId_def toStringRadix_def digitsOf.simps digitChar_def)
  have sums: "generateChecksum ''Hel'' = ''11aef''" "generateChecksum ''Hello'' = ''42628b2''"
    "countWords ''Hel'' = 1" "countWords ''Hello'' = 1"
    by (simp_all add: generateChecksum_def checksumStep_def toStringRadix_def digitsOf.simps
        digitChar_def countWords_def trim_def isSpace_def)
  have c: "getContext ''stream_7_42_1000_abc''
      (runManager ?calls (newStreamStateManager defaultCleanupConfig)) = Some ?c"
    by (simp add: runManager_def createSession_def recordError_def recordRetry_def
        addMessageVersion_def touchSession_def sid sums
        ensureAutoCleanup_def enforceUserSessionLimits_def newStreamStateManager_def
        defaultCleanupConfig_def getContext_def Let_def)
  have none: "getContext ''nobody'' (newStreamStateManager defaultCleanupConfig) = None"
    by (simp add: getContext_def newStreamStateManager_def)
  show ?thesis
    using c none
      version_numbers_gapless [where sid = "''stream_7_42_1000_abc''" and calls = ?calls
        and cfg = defaultCleanupConfig and ctx = ?c
        and m = "newStreamStateManager defaultCleanupConfig" and other = "''nobody''"]
    by simp
qed

subsection \<open>The sweep\<close>

lemma mapDelete_middle:
  assumes "distinct (map fst (pre @ (sid, s) # xs))"
  shows "mapDelete sid (pre @ (sid, s) # xs) = pre @ xs"
proof -
  have "filter (\<lambda>entry. fst entry \<noteq> sid) pre = pre"
    using assms by (auto simp: filter_id_conv)
  moreover have "filter (\<lambda>entry. fst entry \<noteq> sid) xs = xs"
    using assms by (auto simp: filter_id_conv)
  ultimately show ?thesis
    by (simp add: mapDelete_def)
qed

lemma map_of_middle:
  assumes "distinct (map fst (pre @ (sid, s) # xs))"
  shows "map_of (pre @ (sid, s) # xs) sid = Some s"
  using assms by (intro map_of_is_SomeI) simp_all

lemma sweep_fold:
  assumes "distinct (map fst (pre @ xs))" and "sessions m = pre @ xs"
  shows "fst (fold (sweepEntry now) xs (n, m))
           = n + length (filter (\<lambda>entry. shouldCleanup (cleanupConfig m) now (snd entry)) xs)
       \<and> sessions (snd (fold (sweepEntry now) xs (n, m)))
           = pre @ filter (\<lambda>entry. \<not> shouldCleanup (cleanupConfig m) now (snd entry)) xs
       \<and> contexts (snd (fold (sweepEntry now) xs (n, m)))
           = filter (\<lambda>entry. fst entry \<notin> fst `
                      set (filter (\<lambda>entry. shouldCleanup (cleanupConfig m) now (snd entry)) xs))
               (contexts m)"
  using assms
proof (induction xs arbitrary: n m pre)
  case Nil
  then show ?case by simp
next
  case (Cons x xs)
  obtain sid s where x: "x = (sid, s)"
    by (cases x)
  show ?case
  proof (cases "shouldCleanup (cleanupConfig m) now s")
    case True
    let ?m1 = "snd (cleanupSession sid m)"
    have dd: "distinct (map fst (pre @ (sid, s) # xs))"
      using Cons.prems(1) x by simp
    have found: "map_of (sessions m) sid = Some s"
      using map_of_middle [OF dd] Cons.prems(2) x by simp
    have m1: "sessions ?m1 = pre @ xs" "cleanupConfig ?m1 = cleanupConfig m"
      "contexts ?m1 = mapDelete sid (contexts m)"
      using cleanupSession_Some [OF found] mapDelete_middle [OF dd] Cons.prems(2) x
      by simp_all
    have d: "distinct (map fst (pre @ xs))"
      using Cons.prems(1) by simp
    have step: "sweepEntry now x (n, m) = (n + 1, ?m1)"
      using True x by (simp add: sweepEntry_def)
    have "filter (\<lambda>entry. fst entry \<notin> fst `
              set (filter (\<lambda>entry. shouldCleanup (cleanupConfig m) now (snd entry)) xs))
            (mapDelete sid (contexts m))
        = filter (\<lambda>entry. fst entry \<notin> fst `
              set (filter (\<lambda>entry. shouldCleanup (cleanupConfig m) now (snd entry)) (x # xs)))
            (contexts m)"
      using True x by (auto simp: mapDelete_def intro: filter_cong)
    then show ?thesis
      using Cons.IH [OF d m1(1), of "n + 1"] True x step m1(2,3) by simp
  next
    case False
    have d: "distinct (map fst ((pre @ [x]) @ xs))"
      using Cons.prems(1) by simp
    have s: "sessions m = (pre @ [x]) @ xs"
      using Cons.prems(2) by simp
    have step: "sweepEntry now x (n, m) = (n, m)"
      using False x by (simp add: sweepEntry_def)
    show ?thesis
      using Cons.IH [OF d s, of n] False x step by simp
  qed
qed

lemma performCleanup_spec:
  assumes "managerInvariant cfg m"
  shows "fst (performCleanup now m)
           = length (filter (\<lambda>entry. shouldCleanup cfg now (snd entry)) (sessions m))"
    and "sessions (snd (performCleanup now m))
           = filter (\<lambda>entry. \<not> shouldCleanup cfg now (snd entry)) (sessions m)"
    and "contexts (snd (performCleanup now m))
           = filter (\<lambda>entry. fst entry \<notin> fst `
                      set (filter (\<lambda>entry. shouldCleanup cfg now (snd entry)) (sessions m)))
               (contexts m)"
proof -
  have d: "distinct (map fst ([] @ sessions m))" and c: "cleanupConfig m = cfg"
    using assms by (simp_all add: managerInvariant_def)
  show "fst (performCleanup now m)
           = length (filter (\<lambda>entry. shouldCleanup cfg now (snd entry)) (sessions m))"
    and "sessions (snd (performCleanup now m))
           = filter (\<lambda>entry. \<not> shouldCleanup cfg now (snd entry)) (sessions m)"
    and "contexts (snd (performCleanup now m))
           = filter (\<lambda>entry. fst entry \<notin> fst `
                      set (filter (\<lambda>entry. shouldCleanup cfg now (snd entry)) (sessions m)))
               (contexts m)"
    using sweep_fold [OF d, of m now 0] c by (simp_all add: performCleanup_def)
qed

lemma performCleanup_removed:
  assumes "managerInvariant cfg m"
    and "getSession sid m = Some session" and "shouldCleanup cfg now session"
  shows "getSession sid (snd (performCleanup now m)) = None"
    and "getContext sid (snd (performCleanup now m)) = None"
    and "fst (performCleanup now m) \<ge> 1"
proof -
  have d: "distinct (map fst (sessions m))"
    using assms(1) by (simp add: managerInvariant_def)
  have found: "map_of (sessions m) sid = Some session"
    using assms(2) by (simp add: getSession_def)
  show "getSession sid (snd (performCleanup now m)) = None"
    using map_of_filter_dropped [OF d found, of "\<lambda>entry. \<not> shouldCleanup cfg now (snd entry)"]
      assms(3)
    by (simp add: getSession_def performCleanup_spec(2) [OF assms(1)])
  define removed where
    "removed = fst ` set (filter (\<lambda>entry. shouldCleanup cfg now (snd entry)) (sessions m))"
  have member: "(sid, session)
      \<in> set (filter (\<lambda>entry. shouldCleanup cfg now (snd entry)) (sessions m))"
    using map_of_SomeD [OF found] assms(3) by simp
  then have "fst (sid, session) \<in> removed"
    unfolding removed_def by (rule imageI)
  then have "sid \<in> removed"
    by simp
  moreover have "contexts (snd (performCleanup now m))
      = filter (\<lambda>entry. fst entry \<notin> removed) (contexts m)"
    unfolding removed_def by (rule performCleanup_spec(3) [OF assms(1)])
  ultimately have "sid \<notin> fst ` set (contexts (snd (performCleanup now m)))"
    by auto
  then show "getContext sid (snd (performCleanup now m)) = None"
    by (simp add: getContext_def map_of_eq_None_iff)
  have "filter (\<lambda>entry. shouldCleanup cfg now (snd entry)) (sessions m) \<noteq> []"
    using member by (metis empty_iff list.set(1))
  then show "fst (performCleanup now m) \<ge> 1"
    unfolding performCleanup_spec(1) [OF assms(1)]
    by (simp add: Suc_le_eq)
qed

text \<open>
  C6 (as amended). In every state the manager reaches from its construction, a sweep at
  time \<open>now\<close> removes exactly the sessions whose age exceeds the configured maximum age,
  whose inactivity exceeds the configured maximum inactive duration, or whose status is
  completed or error, and it returns the number of sessions removed; a removed session is
  absent from \<open>getSession\<close> and \<open>getContext\<close> afterwards and every other session is kept
  as it was. In particular, with a maximum inactivity of 5000 ms, a session created at
  time \<open>T\<close> and swept at \<open>T + 6000\<close> without activity in between is counted as removed and
  absent from both lookups.
\<close>

theorem sweep_removes_expired:
  assumes "m = runManager calls (newStreamStateManager cfg)"
  shows "sessions (snd (performCleanup now m))
           = filter (\<lambda>entry. \<not> shouldCleanup cfg now (snd entry)) (sessions m)
       \<and> fst (performCleanup now m)
           = length (filter (\<lambda>entry. shouldCleanup cfg now (snd entry)) (sessions m))
       \<and> fst (performCleanup now m)
           = length (sessions m) - length (sessions (snd (performCleanup now m)))
       \<and> (shouldCleanup cfg now session \<longleftrightarrow>
            now - startTime session > maxSessionAge cfg
            \<or> now - lastActivity session > maxInactiveDuration cfg
            \<or> status session = COMPLETED \<or> status session = ERROR)
       \<and> (getSession sid m = Some session \<and> shouldCleanup cfg now session \<longrightarrow>
            getSession sid (snd (performCleanup now m)) = None
            \<and> getContext sid (snd (performCleanup now m)) = None)
       \<and> (getSession sid m = Some session \<and> \<not> shouldCleanup cfg now session \<longrightarrow>
            getSession sid (snd (performCleanup now m)) = Some session)
       \<and> (maxInactiveDuration cfg = 5000 \<longrightarrow>
            getSession (sessionId (fst (createSession chat user meta T random m)))
              (snd (createSession chat user meta T random m))
              = Some (fst (createSession chat user meta T random m))
            \<and> fst (performCleanup (T + 6000) (snd (createSession chat user meta T random m))) \<ge> 1
            \<and> getSession (sessionId (fst (createSession chat user meta T random m)))
                (snd (performCleanup (T + 6000) (snd (createSession chat user meta T random m))))
              = None
            \<and> getContext (sessionId (fst (createSession chat user meta T random m)))
                (snd (performCleanup (T + 6000) (snd (createSession chat user meta T random m))))
              = None)"
proof -
  have inv: "managerInvariant cfg m"
    unfolding assms by (rule runManager_invariant)
  note spec = performCleanup_spec [OF inv, of now]
  have count: "fst (performCleanup now m)
      = length (sessions m) - length (sessions (snd (performCleanup now m)))"
    unfolding spec(1,2)
    using sum_length_filter_compl [of "\<lambda>entry. shouldCleanup cfg now (snd entry)" "sessions m"]
    by simp
  have test: "shouldCleanup cfg now session \<longleftrightarrow>
            now - startTime session > maxSessionAge cfg
            \<or> now - lastActivity session > maxInactiveDuration cfg
            \<or> status session = COMPLETED \<or> status session = ERROR"
    by (simp add: shouldCleanup_def Let_def)
  have kept: "getSession sid (snd (performCleanup now m)) = Some session"
    if "getSession sid m = Some session" and "\<not> shouldCleanup cfg now session"
    using that
      map_of_filter_kept [of "sessions m" sid session
        "\<lambda>entry. \<not> shouldCleanup cfg now (snd entry)"]
    by (simp add: getSession_def spec(2))
  let ?created = "fst (createSession chat user meta T random m)"
  let ?m1 = "snd (createSession chat user meta T random m)"
  have inv1: "managerInvariant cfg ?m1"
    using inv by (rule createSession_invariant)
  have created: "getSession (sessionId ?created) ?m1 = Some ?created"
    by (simp add: createSession_def Let_def getSession_def map_of_mapSet)
  have idle: "lastActivity ?created = T"
    by (simp add: createSession_def Let_def)
  have scenario: "fst (performCleanup (T + 6000) ?m1) \<ge> 1
      \<and> getSession (sessionId ?created) (snd (performCleanup (T + 6000) ?m1)) = None
      \<and> getContext (sessionId ?created) (snd (performCleanup (T + 6000) ?m1)) = None"
    if "maxInactiveDuration cfg = 5000"
  proof -
    have "shouldCleanup cfg (T + 6000) ?created"
      using that idle by (simp add: shouldCleanup_def Let_def)
    then show ?thesis
      using performCleanup_removed [OF inv1 created] by blast
  qed
  show ?thesis
    using spec(1,2) count test kept created scenario
      performCleanup_removed(1,2) [OF inv, of sid session now]
    by blast
qed

theorem sweep_removes_expired_witness:
  "maxInactiveDuration (defaultCleanupConfig\<lparr>maxInactiveDuration := 5000\<rparr>) = 5000
   \<and> getSession ''stream_7_42_1000_abc''
       (runManager [(1000, CreateSession 7 42 [] ''abc'')]
          (newStreamStateManager (defaultCleanupConfig\<lparr>maxInactiveDuration := 5000\<rparr>)))
     = Some \<lparr>sessionId = ''stream_7_42_1000_abc'', chatId = 7, userId = 42, startTime = 1000,
             lastActivity = 1000, status = INITIALIZING, messageId = None, metadata = []\<rparr>
   \<and> shouldCleanup (defaultCleanupConfig\<lparr>maxInactiveDuration := 5000\<rparr>) 7000
       \<lparr>sessionId = ''stream_7_42_1000_abc'', chatId = 7, userId = 42, startTime = 1000,
        lastActivity = 1000, status = INITIALIZING, messageId = None, metadata = []\<rparr>
   \<and> fst (performCleanup 7000
       (runManager [(1000, CreateSession 7 42 [] ''abc'')]
          (newStreamStateManager (defaultCleanupConfig\<lparr>maxInactiveDuration := 5000\<rparr>)))) = 1
   \<and> getSession ''stream_7_42_1000_abc'' (snd (performCleanup 7000
       (runManager [(1000, CreateSession 7 42 [] ''abc'')]
          (newStreamStateManager (defaultCleanupConfig\<lparr>maxInactiveDuration := 5000\<rparr>)))))
     = None
   \<and> getContext ''stream_7_42_1000_abc'' (snd (performCleanup 7000
       (runManager [(1000, CreateSession 7 42 [] ''abc'')]
          (newStreamStateManager (defaultCleanupConfig\<lparr>maxInactiveDuration := 5000\<rparr>)))))
     = None
   \<and> \<not> shouldCleanup (defaultCleanupConfig\<lparr>maxInactiveDuration := 5000\<rparr>) 2000
       \<lparr>sessionId = ''stream_7_42_1000_abc'', chatId = 7, userId = 42, startTime = 1000,
        lastActivity = 1000, status = INITIALIZING, messageId = None, metadata = []\<rparr>
   \<and> getSession ''stream_7_42_1000_abc'' (snd (performCleanup 2000
       (runManager [(1000, CreateSession 7 42 [] ''abc'')]
          (newStreamStateManager (defaultCleanupConfig\<lparr>maxInactiveDuration := 5000\<rparr>)))))
     = Some \<lparr>sessionId = ''stream_7_42_1000_abc'', chatId = 7, userId = 42, startTime = 1000,
             lastActivity = 1000, status = INITIALIZING, messageId = None, metadata = []\<rparr>
   \<and> getSession ''stream_7_42_1000_abc'' (snd (performCleanup (1000 + 6000)
       (snd (createSession 7 42 [] 1000 ''abc''
          (runManager []
             (newStreamStateManager (defaultCleanupConfig\<lparr>maxInactiveDuration := 5000\<rparr>)))))))
     = None"
proof -
  let ?cfg = "defaultCleanupConfig\<lparr>maxInactiveDuration := 5000\<rparr>"
  let ?m = "runManager [(1000, CreateSession 7 42 [] ''abc'')] (newStreamStateManager ?cfg)"
  let ?s = "\<lparr>sessionId = ''stream_7_42_1000_abc'', chatId = 7, userId = 42, startTime = 1000,
             lastActivity = 1000, status = INITIALIZING, messageId = None, metadata = []\<rparr>"
  have sid: "generateSessionId 7 42 1000 ''abc'' = ''stream_7_42_1000_abc''"
    by (simp add: generateSessionId_def toStringRadix_def digitsOf.simps digitChar_def)
  have cfg: "maxInactiveDuration ?cfg = 5000"
    by simp
  have sessions: "sessions ?m = [(''stream_7_42_1000_abc'', ?s)]"
    by (simp add: runManager_def createSession_def sid ensureAutoCleanup_def
        enforceUserSessionLimits_def newStreamStateManager_def defaultCleanupConfig_def Let_def)
  then have s: "getSession ''stream_7_42_1000_abc'' ?m = Some ?s"
    by (simp add: getSession_def)
  have old: "shouldCleanup ?cfg 7000 ?s" and young: "\<not> shouldCleanup ?cfg 2000 ?s"
    by (simp_all add: shouldCleanup_def defaultCleanupConfig_def)
  have created: "sessionId (fst (createSession 7 42 [] 1000 ''abc''
      (runManager [] (newStreamStateManager ?cfg)))) = ''stream_7_42_1000_abc''"
    by (simp add: createSession_def Let_def sid)
  have a: "fst (performCleanup 7000 ?m)
        = length (filter (\<lambda>entry. shouldCleanup ?cfg 7000 (snd entry)) (sessions ?m))"
    and b: "getSession ''stream_7_42_1000_abc'' (snd (performCleanup 7000 ?m)) = None"
    and c: "getContext ''stream_7_42_1000_abc'' (snd (performCleanup 7000 ?m)) = None"
    using sweep_removes_expired [OF refl, where calls = "[(1000, CreateSession 7 42 [] ''abc'')]"
        and cfg = ?cfg and now = 7000 and sid = "''stream_7_42_1000_abc''" and session = ?s]
      s old
    by blast+
  have d: "getSession ''stream_7_42_1000_abc'' (snd (performCleanup 2000 ?m)) = Some ?s"
    using sweep_removes_expired [OF refl, where calls = "[(1000, CreateSession 7 42 [] ''abc'')]"
        and cfg = ?cfg and now = 2000 and sid = "''stream_7_42_1000_abc''" and session = ?s]
      s young
    by blast
  have e: "getSession ''stream_7_42_1000_abc'' (snd (performCleanup (1000 + 6000)
       (snd (createSession 7 42 [] 1000 ''abc''
          (runManager [] (newStreamStateManager ?cfg)))))) = None"
    using sweep_removes_expired [OF refl, where calls = "[]" and cfg = ?cfg and chat = 7
        and user = 42 and meta = "[]" and T = 1000 and random = "''abc''"]
      cfg created
    by simp
  have "fst (performCleanup 7000 ?m) = 1"
    unfolding a sessions using old by simp
  then show ?thesis
    using cfg s old young b c d e by simp
qed

text \<open>
  C6 as it is stated fails for the timeout status: a session whose status was set to
  timeout, young and recently active, is not removed by the sweep, which tests the status
  for completed and error only.
\<close>

theorem sweep_removes_expired_counterexample:
  "getSession ''stream_7_42_1000_abc''
     (runManager [(1000, CreateSession 7 42 [] ''abc''),
                  (1010, UpdateSessionStatus ''stream_7_42_1000_abc'' TIMEOUT)]
        (newStreamStateManager defaultCleanupConfig))
     = Some \<lparr>sessionId = ''stream_7_42_1000_abc'', chatId = 7, userId = 42, startTime = 1000,
             lastActivity = 1010, status = TIMEOUT, messageId = None, metadata = []\<rparr>
   \<and> fst (performCleanup 1020
       (runManager [(1000, CreateSession 7 42 [] ''abc''),
                    (1010, UpdateSessionStatus ''stream_7_42_1000_abc'' TIMEOUT)]
          (newStreamStateManager defaultCleanupConfig))) = 0
   \<and> getSession ''stream_7_42_1000_abc'' (snd (performCleanup 1020
       (runManager [(1000, CreateSession 7 42 [] ''abc''),
                    (1010, UpdateSessionStatus ''stream_7_42_1000_abc'' TIMEOUT)]
          (newStreamStateManager defaultCleanupConfig))))
     = Some \<lparr>sessionId = ''stream_7_42_1000_abc'', chatId = 7, userId = 42, startTime = 1000,
             lastActivity = 1010, status = TIMEOUT, messageId = None, metadata = []\<rparr>"
proof -
  have sid: "generateSessionId 7 42 1000 ''abc'' = ''stream_7_42_1000_abc''"
    by (simp add: generateSessionId_def toStringRadix_def digitsOf.simps digitChar_def)
  show ?thesis
    by (simp add: runManager_def createSession_def updateSessionStatus_def sid
        performCleanup_def sweepEntry_def shouldCleanup_def getSession_def
        ensureAutoCleanup_def enforceUserSessionLimits_def newStreamStateManager_def
        defaultCleanupConfig_def Let_def)
qed

end
